theory Spec2Isabelle
  imports Main "HOL-Library.Word"
begin

unbundle bit_operations_syntax

section \<open>RISC-V PMP shadow registers (arch/riscv/core/pmp.c)\<close>

text \<open>
  The development follows the 32-bit build (\<^verbatim>\<open>CONFIG_64BIT\<close> unset): \<^verbatim>\<open>ulong_t\<close>,
  \<^verbatim>\<open>uintptr_t\<close> and \<^verbatim>\<open>size_t\<close> are 32-bit words, hence
  \<^verbatim>\<open>PMPCFG_STRIDE = sizeof(ulong_t) = 4\<close>. Slot indices are \<^verbatim>\<open>unsigned int\<close>; every
  index the code computes is bounded by the array size, so they are natural numbers.
  The \<^verbatim>\<open>pmpcfg\<close> shadow array is only ever accessed through its \<^verbatim>\<open>uint8_t\<close> view
  \<^verbatim>\<open>pmp_n_cfg\<close> (or copied one whole register at a time), so it is a list of bytes whose
  length is a multiple of \<^verbatim>\<open>PMPCFG_STRIDE\<close>.
\<close>

type_synonym ulong_t = "32 word"
type_synonym uint8_t = "8 word"
type_synonym uint_t = "32 word"

definition PMPCFG_STRIDE :: nat where
  "PMPCFG_STRIDE = 4"

text \<open>
  Modelled from the spec: the config-byte macros of \<^verbatim>\<open>arch/riscv/csr.h\<close> live in a header
  outside \<^verbatim>\<open>pmp.c\<close>. The spec's data model splits the config byte into a permission
  (read, write, execute), a match mode (off, top-of-range, naturally-aligned-4,
  naturally-aligned-power-of-two) and a lock flag; the bit positions are those of the
  RISC-V privileged architecture, which the header repeats.
\<close>

definition PMP_R :: uint8_t where "PMP_R = 0x01"
definition PMP_W :: uint8_t where "PMP_W = 0x02"
definition PMP_X :: uint8_t where "PMP_X = 0x04"
definition PMP_A :: uint8_t where "PMP_A = 0x18"
definition PMP_L :: uint8_t where "PMP_L = 0x80"
definition PMP_TOR :: uint8_t where "PMP_TOR = 0x08"
definition PMP_NA4 :: uint8_t where "PMP_NA4 = 0x10"
definition PMP_NAPOT :: uint8_t where "PMP_NAPOT = 0x18"
definition PMP_NONE :: uint8_t where "PMP_NONE = 0"

definition PMP_ADDR :: "ulong_t \<Rightarrow> ulong_t" where
  "PMP_ADDR addr = drop_bit 2 addr"

definition NAPOT_RANGE :: "ulong_t \<Rightarrow> ulong_t" where
  "NAPOT_RANGE sz = drop_bit 1 (sz - 1)"

definition PMP_ADDR_NAPOT :: "ulong_t \<Rightarrow> ulong_t \<Rightarrow> ulong_t" where
  "PMP_ADDR_NAPOT addr sz = PMP_ADDR (addr OR NAPOT_RANGE sz)"

subsection \<open>Failures\<close>

text \<open>
  \<^verbatim>\<open>__ASSERT\<close> aborts when \<^verbatim>\<open>CONFIG_ASSERT\<close> is set and is compiled out otherwise; the
  build option is the first argument \<open>asserts\<close> of every function that contains one.
  \<^verbatim>\<open>k_panic()\<close> aborts in every build. A read past the end of the partition array is
  undefined behaviour in C and is a failure of its own here.
\<close>

datatype fault = Assertion_failed | Kernel_panic | Out_of_bounds_read

subsection \<open>print_pmp_entries: the decoder\<close>

text \<open>
  One \<^verbatim>\<open>LOG_DBG\<close> line per slot. \<open>Raw\<close> is the short form (\<^verbatim>\<open>end == 0\<close>: index,
  address register, config byte); \<open>Decoded\<close> carries in addition the first and the last
  address of the range and the R, W, X and LOCKED marks.
\<close>

datatype log_line =
  Raw nat ulong_t uint8_t
| Decoded nat ulong_t uint8_t ulong_t ulong_t bool bool bool bool

definition decode_range :: "nat \<Rightarrow> ulong_t list \<Rightarrow> uint8_t list \<Rightarrow> ulong_t \<times> ulong_t" where
  "decode_range index pmp_addr pmp_n_cfg =
     (let a = (pmp_n_cfg ! index) AND PMP_A in
      if a = PMP_TOR then
        ((if index = 0 then 0 else push_bit 2 (pmp_addr ! (index - 1))),
         push_bit 2 (pmp_addr ! index) - 1)
      else if a = PMP_NA4 then
        (let s = push_bit 2 (pmp_addr ! index) in (s, s + 3))
      else if a = PMP_NAPOT then
        (let tmp = push_bit 2 (pmp_addr ! index) OR 3 in (tmp AND (tmp + 1), tmp OR (tmp + 1)))
      else (0, 0))"

definition print_pmp_entry :: "nat \<Rightarrow> ulong_t list \<Rightarrow> uint8_t list \<Rightarrow> log_line" where
  "print_pmp_entry index pmp_addr pmp_n_cfg =
     (let (s, e) = decode_range index pmp_addr pmp_n_cfg; c = pmp_n_cfg ! index in
      if e = 0 then Raw index (pmp_addr ! index) c
      else Decoded index (pmp_addr ! index) c s e
             (c AND PMP_R \<noteq> 0) (c AND PMP_W \<noteq> 0) (c AND PMP_X \<noteq> 0) (c AND PMP_L \<noteq> 0))"

definition print_pmp_entries ::
  "nat \<Rightarrow> nat \<Rightarrow> ulong_t list \<Rightarrow> uint8_t list \<Rightarrow> log_line list" where
  "print_pmp_entries start end pmp_addr pmp_n_cfg =
     map (\<lambda>index. print_pmp_entry index pmp_addr pmp_n_cfg) [start..<end]"

subsection \<open>set_pmp_entry: the region encoder\<close>

text \<open>
  The result is the return value \<open>ok\<close>, the cursor written back through \<^verbatim>\<open>index_p\<close> and
  the two arrays.
\<close>

definition set_pmp_entry ::
  "bool \<Rightarrow> nat \<Rightarrow> uint8_t \<Rightarrow> ulong_t \<Rightarrow> ulong_t \<Rightarrow> ulong_t list \<Rightarrow> uint8_t list \<Rightarrow> nat
     \<Rightarrow> fault + (bool \<times> nat \<times> ulong_t list \<times> uint8_t list)" where
  "set_pmp_entry asserts index perm start sz pmp_addr pmp_n_cfg index_limit =
     (if asserts \<and> start AND 0x3 \<noteq> 0 then Inl Assertion_failed
      else if asserts \<and> sz AND 0x3 \<noteq> 0 then Inl Assertion_failed
      else if index \<ge> index_limit then
        Inr (False, index, pmp_addr, pmp_n_cfg)
      else if (index = 0 \<and> start = 0) \<or>
              (index \<noteq> 0 \<and> pmp_addr ! (index - 1) = PMP_ADDR start) then
        Inr (True, index + 1,
             pmp_addr[index := PMP_ADDR (start + sz)],
             pmp_n_cfg[index := perm OR PMP_TOR])
      else if sz AND (sz - 1) = 0 \<and> start AND (sz - 1) = 0 then
        Inr (True, index + 1,
             pmp_addr[index := PMP_ADDR_NAPOT start sz],
             pmp_n_cfg[index := perm OR (if sz = 4 then PMP_NA4 else PMP_NAPOT)])
      else if index + 1 \<ge> index_limit then
        Inr (False, index, pmp_addr, pmp_n_cfg)
      else
        Inr (True, index + 2,
             pmp_addr[index := PMP_ADDR start, index + 1 := PMP_ADDR (start + sz)],
             pmp_n_cfg[index := 0, index + 1 := perm OR PMP_TOR]))"

text \<open>
  The chaining test of \<open>set_pmp_entry\<close>, named: it looks at the cursor and at the
  preceding address register, not at the region that was encoded before.
\<close>

definition chaining :: "nat \<Rightarrow> ulong_t \<Rightarrow> ulong_t list \<Rightarrow> bool" where
  "chaining index start pmp_addr \<longleftrightarrow>
     index = 0 \<and> start = 0 \<or> index \<noteq> 0 \<and> pmp_addr ! (index - 1) = PMP_ADDR start"

text \<open>
  The shapes of a region in the words of the specification: its start equals the end of
  the prior region \<open>[start0, start0 + sz0)\<close> (in machine arithmetic); its size is a power
  of two; its start is a multiple of its size.
\<close>

definition starts_at_end_of :: "ulong_t \<Rightarrow> ulong_t \<Rightarrow> ulong_t \<Rightarrow> bool" where
  "starts_at_end_of start start0 sz0 \<longleftrightarrow> start = start0 + sz0"

definition power_of_two :: "ulong_t \<Rightarrow> bool" where
  "power_of_two sz \<longleftrightarrow> (\<exists>k \<in> set [0..<32]. sz = 2 ^ k)"

definition naturally_aligned :: "ulong_t \<Rightarrow> ulong_t \<Rightarrow> bool" where
  "naturally_aligned start sz \<longleftrightarrow> unat start mod unat sz = 0"

text \<open>The ranges a dump shows: the \<open>Decoded\<close> lines, without index and raw registers.\<close>

fun decoded_ranges ::
  "log_line list \<Rightarrow> (ulong_t \<times> ulong_t \<times> bool \<times> bool \<times> bool \<times> bool) list" where
  "decoded_ranges [] = []"
| "decoded_ranges (Raw index a c # ls) = decoded_ranges ls"
| "decoded_ranges (Decoded index a c s e r w x l # ls) = (s, e, r, w, x, l) # decoded_ranges ls"

subsection \<open>write_pmp_entries: the register writer\<close>

text \<open>
  Calls that leave this file are recorded as events, in program order: the assembly
  routine \<^verbatim>\<open>z_riscv_write_pmp_entries\<close> with its arguments (the arrays as they are at
  the call), taking and releasing \<^verbatim>\<open>z_mem_domain_lock\<close>, and clearing
  \<^verbatim>\<open>MSTATUS_MPRV\<close>. Logging is not recorded. A function with effects returns its events
  together with either the failure that stopped it or its result.
\<close>

datatype event =
  Z_riscv_write_pmp_entries nat nat bool "ulong_t list" "uint8_t list"
| K_spin_lock
| K_spin_unlock
| Csr_clear_mstatus_MPRV

text \<open>
  The build options the code depends on: \<^verbatim>\<open>CONFIG_ASSERT\<close>,
  \<^verbatim>\<open>CONFIG_PMP_STACK_GUARD\<close> and the slot count \<^verbatim>\<open>CONFIG_PMP_SLOTS\<close>.
\<close>

record kconfig =
  CONFIG_ASSERT :: bool
  CONFIG_PMP_STACK_GUARD :: bool
  CONFIG_PMP_SLOTS :: nat

text \<open>The loop \<^verbatim>\<open>for (index = end; index % PMPCFG_STRIDE != 0; index++) pmp_n_cfg[index] = 0;\<close>\<close>

function clear_trailing :: "nat \<Rightarrow> uint8_t list \<Rightarrow> uint8_t list" where
  "clear_trailing index pmp_n_cfg =
     (if index mod PMPCFG_STRIDE \<noteq> 0 then clear_trailing (index + 1) (pmp_n_cfg[index := 0])
      else pmp_n_cfg)"
  by pat_completeness auto
termination
proof (relation "measure (\<lambda>(index, pmp_n_cfg). (4 - index mod 4) mod 4)")
  show "wf (measure (\<lambda>(index, pmp_n_cfg :: uint8_t list). (4 - index mod 4) mod 4))"
    by simp
next
  fix index :: nat and pmp_n_cfg :: "uint8_t list"
  define r where "r = index mod 4"
  assume "index mod PMPCFG_STRIDE \<noteq> 0"
  then have "r < 4" "r \<noteq> 0"
    by (simp_all add: r_def PMPCFG_STRIDE_def)
  then consider "r = 1" | "r = 2" | "r = 3"
    by linarith
  moreover have "(index + 1) mod 4 = (r + 1) mod 4"
    unfolding r_def by (simp add: mod_Suc_eq)
  ultimately have "(4 - (index + 1) mod 4) mod 4 < (4 - index mod 4) mod 4"
    unfolding r_def [symmetric] by cases simp_all
  then show "((index + 1, pmp_n_cfg[index := 0]), index, pmp_n_cfg)
      \<in> measure (\<lambda>(index, pmp_n_cfg). (4 - index mod 4) mod 4)"
    by simp
qed

declare clear_trailing.simps [simp del]

definition write_pmp_entries ::
  "kconfig \<Rightarrow> nat \<Rightarrow> nat \<Rightarrow> bool \<Rightarrow> ulong_t list \<Rightarrow> uint8_t list \<Rightarrow> nat
     \<Rightarrow> event list \<times> (fault + uint8_t list)" where
  "write_pmp_entries conf start end clear_trailing_entries pmp_addr pmp_n_cfg index_limit =
     (if CONFIG_ASSERT conf \<and>
         \<not> (start < end \<and> end \<le> index_limit \<and> index_limit \<le> CONFIG_PMP_SLOTS conf)
      then ([], Inl Assertion_failed)
      else if start \<ge> end \<or> end > index_limit then ([], Inl Kernel_panic)
      else
        let pmp_n_cfg' =
              (if clear_trailing_entries then clear_trailing end pmp_n_cfg else pmp_n_cfg)
        in ([Z_riscv_write_pmp_entries start end clear_trailing_entries pmp_addr pmp_n_cfg'],
            Inr pmp_n_cfg'))"

text \<open>The first register-word boundary at or after a slot index.\<close>

definition next_boundary :: "nat \<Rightarrow> nat" where
  "next_boundary index = ((index + PMPCFG_STRIDE - 1) div PMPCFG_STRIDE) * PMPCFG_STRIDE"

subsection \<open>Threads, memory domains and the cached global entries\<close>

text \<open>
  Only the fields \<^verbatim>\<open>pmp.c\<close> reads or writes. \<^verbatim>\<open>ARRAY_SIZE\<close> of a shadow array is
  the length of its list. The thread's pointer to its memory domain is followed by the
  caller: the functions below take the domain as an argument. The generation counters
  are \<^verbatim>\<open>unsigned int\<close>. \<^verbatim>\<open>num_partitions\<close> and the loop counter
  \<^verbatim>\<open>remaining_partitions\<close> never drop below zero and are natural numbers.
\<close>

record k_mem_partition =
  part_start :: ulong_t
  part_size :: ulong_t
  part_pmp_attr :: uint8_t

record k_mem_domain =
  partitions :: "k_mem_partition list"
  num_partitions :: nat
  domain_pmp_update_nr :: uint_t

record k_thread =
  stack_info_start :: ulong_t
  stack_info_size :: ulong_t
  u_mode_pmpaddr_regs :: "ulong_t list"
  u_mode_pmpcfg_regs :: "uint8_t list"
  u_mode_pmp_domain_offset :: nat
  u_mode_pmp_end_index :: nat
  u_mode_pmp_update_nr :: uint_t

text \<open>
  The file-level statics \<^verbatim>\<open>global_pmp_cfg[1]\<close> (one register, as its bytes) and
  \<^verbatim>\<open>global_pmp_end_index\<close>, and the linker symbols of the read-only image.
\<close>

record pmp_globals =
  global_pmp_cfg :: "uint8_t list"
  global_pmp_end_index :: nat
  rom_region_start :: ulong_t
  rom_region_size :: ulong_t


definition z_riscv_pmp_usermode_init :: "k_thread \<Rightarrow> k_thread" where
  "z_riscv_pmp_usermode_init thread = thread\<lparr>u_mode_pmp_end_index := 0\<rparr>"


subsection \<open>resync_pmp_domain\<close>

text \<open>
  The partition loop. It is bounded by \<^verbatim>\<open>remaining_partitions\<close> alone; reading
  \<^verbatim>\<open>domain->partitions[p_idx]\<close> past the end of the array is the failure
  \<open>Out_of_bounds_read\<close>.
\<close>

function resync_loop ::
  "bool \<Rightarrow> k_mem_domain \<Rightarrow> nat \<Rightarrow> nat \<Rightarrow> nat \<Rightarrow> ulong_t list \<Rightarrow> uint8_t list
     \<Rightarrow> fault + (nat \<times> ulong_t list \<times> uint8_t list)" where
  "resync_loop asserts domain p_idx remaining_partitions index pmp_addr pmp_n_cfg =
     (if remaining_partitions > 0 then
        if p_idx \<ge> length (partitions domain) then Inl Out_of_bounds_read
        else
          let part = partitions domain ! p_idx in
          if part_size part = 0 then
            resync_loop asserts domain (p_idx + 1) remaining_partitions index pmp_addr pmp_n_cfg
          else if part_size part < 4 then
            (if asserts then Inl Assertion_failed
             else resync_loop asserts domain (p_idx + 1) (remaining_partitions - 1)
                    index pmp_addr pmp_n_cfg)
          else
            (case set_pmp_entry asserts index (part_pmp_attr part) (part_start part)
                    (part_size part) pmp_addr pmp_n_cfg (length pmp_addr) of
               Inl f \<Rightarrow> Inl f
             | Inr r \<Rightarrow>
                 if asserts \<and> \<not> fst r then Inl Assertion_failed
                 else resync_loop asserts domain (p_idx + 1) (remaining_partitions - 1)
                        (fst (snd r)) (fst (snd (snd r))) (snd (snd (snd r))))
      else Inr (index, pmp_addr, pmp_n_cfg))"
  by pat_completeness auto
termination
  by (relation "measure (\<lambda>(asserts, domain, p_idx, rest). length (partitions domain) - p_idx)")
     auto

declare resync_loop.simps [simp del]

definition resync_pmp_domain ::
  "kconfig \<Rightarrow> k_thread \<Rightarrow> k_mem_domain \<Rightarrow> event list \<times> (fault + k_thread)" where
  "resync_pmp_domain conf thread domain =
     (case resync_loop (CONFIG_ASSERT conf) domain 0 (num_partitions domain)
             (u_mode_pmp_domain_offset thread)
             (u_mode_pmpaddr_regs thread) (u_mode_pmpcfg_regs thread) of
        Inl f \<Rightarrow> ([K_spin_lock], Inl f)
      | Inr (index, pmp_addr, pmp_n_cfg) \<Rightarrow>
          ([K_spin_lock, K_spin_unlock],
           Inr (thread\<lparr>u_mode_pmpaddr_regs := pmp_addr,
                       u_mode_pmpcfg_regs := pmp_n_cfg,
                       u_mode_pmp_end_index := index,
                       u_mode_pmp_update_nr := domain_pmp_update_nr domain\<rparr>)))"

subsection \<open>z_riscv_pmp_usermode_enable and the domain hooks\<close>

definition z_riscv_pmp_usermode_enable ::
  "kconfig \<Rightarrow> pmp_globals \<Rightarrow> k_thread \<Rightarrow> k_mem_domain \<Rightarrow> event list \<times> (fault + k_thread)" where
  "z_riscv_pmp_usermode_enable conf g thread domain =
     (if u_mode_pmp_end_index thread = 0 then ([], Inr thread)
      else
        let (ev1, r1) =
              (if u_mode_pmp_update_nr thread \<noteq> domain_pmp_update_nr domain
               then resync_pmp_domain conf thread domain
               else ([], Inr thread))
        in case r1 of
             Inl f \<Rightarrow> (ev1, Inl f)
           | Inr thread1 \<Rightarrow>
               let ev2 = (if CONFIG_PMP_STACK_GUARD conf then [Csr_clear_mstatus_MPRV] else []);
                   (ev3, r3) =
                     write_pmp_entries conf (global_pmp_end_index g)
                       (u_mode_pmp_end_index thread1) True
                       (u_mode_pmpaddr_regs thread1) (u_mode_pmpcfg_regs thread1)
                       (length (u_mode_pmpaddr_regs thread1))
               in case r3 of
                    Inl f \<Rightarrow> (ev1 @ ev2 @ ev3, Inl f)
                  | Inr pmp_n_cfg' \<Rightarrow>
                      (ev1 @ ev2 @ ev3, Inr (thread1\<lparr>u_mode_pmpcfg_regs := pmp_n_cfg'\<rparr>)))"


definition arch_mem_domain_partition_add :: "k_mem_domain \<Rightarrow> k_mem_domain" where
  "arch_mem_domain_partition_add domain =
     domain\<lparr>domain_pmp_update_nr := domain_pmp_update_nr domain + 1\<rparr>"

definition arch_mem_domain_partition_remove :: "k_mem_domain \<Rightarrow> k_mem_domain" where
  "arch_mem_domain_partition_remove domain =
     domain\<lparr>domain_pmp_update_nr := domain_pmp_update_nr domain + 1\<rparr>"

definition arch_mem_domain_thread_add :: "k_thread \<Rightarrow> k_thread" where
  "arch_mem_domain_thread_add thread = thread\<lparr>u_mode_pmp_update_nr := 0\<rparr>"

text \<open>
  \<^verbatim>\<open>resync_pmp_domain\<close> is the only function on the switch path that takes
  \<^verbatim>\<open>z_mem_domain_lock\<close>, once per call: the calls of it during a switch are the
  \<open>K_spin_lock\<close> events of the switch.
\<close>

definition resync_calls :: "event list \<Rightarrow> nat" where
  "resync_calls evs = count_list evs K_spin_lock"

subsection \<open>arch_buffer_validate\<close>

definition IS_WITHIN :: "ulong_t \<Rightarrow> ulong_t \<Rightarrow> ulong_t \<Rightarrow> ulong_t \<Rightarrow> bool" where
  "IS_WITHIN inner_start inner_size outer_start outer_size \<longleftrightarrow>
     inner_start \<ge> outer_start \<and> inner_size \<le> outer_size \<and>
     inner_start - outer_start \<le> outer_size - inner_size"

text \<open>
  The partition search. The argument \<open>write\<close> is \<^verbatim>\<open>write != 0\<close>; the result is the
  value of \<^verbatim>\<open>ret\<close> when the loop is left (by \<^verbatim>\<open>break\<close> or by its condition).
\<close>

function validate_loop ::
  "k_mem_domain \<Rightarrow> ulong_t \<Rightarrow> ulong_t \<Rightarrow> bool \<Rightarrow> nat \<Rightarrow> nat \<Rightarrow> fault + int" where
  "validate_loop domain start sz write p_idx remaining_partitions =
     (if remaining_partitions > 0 then
        if p_idx \<ge> length (partitions domain) then Inl Out_of_bounds_read
        else
          let part = partitions domain ! p_idx in
          if part_size part = 0 then
            validate_loop domain start sz write (p_idx + 1) remaining_partitions
          else if \<not> IS_WITHIN start sz (part_start part) (part_size part) then
            validate_loop domain start sz write (p_idx + 1) (remaining_partitions - 1)
          else if part_pmp_attr part AND (if write then PMP_W else PMP_R) \<noteq> 0 then Inr 0
          else Inr (- 1)
      else Inr (- 1))"
  by pat_completeness auto
termination
  by (relation "measure (\<lambda>(domain, start, sz, write, p_idx, rest).
                  length (partitions domain) - p_idx)")
     auto

declare validate_loop.simps [simp del]

text \<open>\<open>current\<close> is \<^verbatim>\<open>_current\<close>, \<open>domain\<close> the memory domain it points to.\<close>

definition arch_buffer_validate ::
  "pmp_globals \<Rightarrow> k_thread \<Rightarrow> k_mem_domain \<Rightarrow> ulong_t \<Rightarrow> ulong_t \<Rightarrow> bool
     \<Rightarrow> event list \<times> (fault + int)" where
  "arch_buffer_validate g current domain addr sz write =
     (let start = addr in
      if IS_WITHIN start sz (stack_info_start current) (stack_info_size current) then
        ([], Inr 0)
      else if \<not> write \<and> IS_WITHIN start sz (rom_region_start g) (rom_region_size g) then
        ([], Inr 0)
      else
        case validate_loop domain start sz write 0 (num_partitions domain) of
          Inl f \<Rightarrow> ([K_spin_lock], Inl f)
        | Inr ret \<Rightarrow> ([K_spin_lock, K_spin_unlock], Inr ret))"

subsection \<open>The properties in the words of the specification\<close>

text \<open>
  The address range \<open>[a, a + n)\<close> lies entirely inside \<open>[s, s + m)\<close>: it starts at or
  after \<open>s\<close> and ends at or before \<open>s + m\<close>, the sums taken in the natural numbers (no
  wrap-around).
\<close>

definition region_inside :: "ulong_t \<Rightarrow> ulong_t \<Rightarrow> ulong_t \<Rightarrow> ulong_t \<Rightarrow> bool" where
  "region_inside a n s m \<longleftrightarrow> unat s \<le> unat a \<and> unat a + unat n \<le> unat s + unat m"

definition grants :: "k_mem_partition \<Rightarrow> bool \<Rightarrow> bool" where
  "grants part write \<longleftrightarrow> part_pmp_attr part AND (if write then PMP_W else PMP_R) \<noteq> 0"

definition holds_range :: "ulong_t \<Rightarrow> ulong_t \<Rightarrow> k_mem_partition \<Rightarrow> bool" where
  "holds_range a n part \<longleftrightarrow> region_inside a n (part_start part) (part_size part)"

text \<open>The non-empty partitions of a domain, in array order.\<close>

definition non_empty :: "k_mem_domain \<Rightarrow> k_mem_partition list" where
  "non_empty domain = filter (\<lambda>part. part_size part \<noteq> 0) (partitions domain)"

text \<open>
  Each partition of a list handled exactly once, front to back: what one pass of the
  synchronizer does with a non-empty partition, and what the validator's search does.
\<close>

fun resync_parts ::
  "bool \<Rightarrow> k_mem_partition list \<Rightarrow> nat \<Rightarrow> ulong_t list \<Rightarrow> uint8_t list
     \<Rightarrow> fault + (nat \<times> ulong_t list \<times> uint8_t list)" where
  "resync_parts asserts [] index pmp_addr pmp_n_cfg = Inr (index, pmp_addr, pmp_n_cfg)"
| "resync_parts asserts (part # parts) index pmp_addr pmp_n_cfg =
     (if part_size part < 4 then
        (if asserts then Inl Assertion_failed
         else resync_parts asserts parts index pmp_addr pmp_n_cfg)
      else
        (case set_pmp_entry asserts index (part_pmp_attr part) (part_start part)
                (part_size part) pmp_addr pmp_n_cfg (length pmp_addr) of
           Inl f \<Rightarrow> Inl f
         | Inr r \<Rightarrow>
             if asserts \<and> \<not> fst r then Inl Assertion_failed
             else resync_parts asserts parts (fst (snd r)) (fst (snd (snd r)))
                    (snd (snd (snd r)))))"

fun validate_parts :: "k_mem_partition list \<Rightarrow> ulong_t \<Rightarrow> ulong_t \<Rightarrow> bool \<Rightarrow> int" where
  "validate_parts [] a n write = - 1"
| "validate_parts (part # parts) a n write =
     (if holds_range a n part then (if grants part write then 0 else - 1)
      else validate_parts parts a n write)"

text \<open>
  Repeated context switches of one thread with its domain left alone: \<open>n\<close> calls of
  \<open>z_riscv_pmp_usermode_enable\<close> in a row, each on the thread state the previous one left,
  stopping at the first abort. The events of all calls are collected in order.
\<close>

fun repeat_enable ::
  "kconfig \<Rightarrow> pmp_globals \<Rightarrow> k_mem_domain \<Rightarrow> nat \<Rightarrow> k_thread
     \<Rightarrow> event list \<times> (fault + k_thread)" where
  "repeat_enable conf g domain 0 thread = ([], Inr thread)"
| "repeat_enable conf g domain (Suc n) thread =
     (case z_riscv_pmp_usermode_enable conf g thread domain of
        (evs, Inl f) \<Rightarrow> (evs, Inl f)
      | (evs, Inr thread') \<Rightarrow>
          (evs @ fst (repeat_enable conf g domain n thread'),
           snd (repeat_enable conf g domain n thread')))"

subsection \<open>A sample configuration\<close>

text \<open>
  Eight slots; slot 0 holds the locked read+execute NAPOT entry of a read-only image
  \<open>[0x80000000, 0x80008000)\<close>. A thread with stack \<open>[0x3000, 0x4000)\<close> whose
  unprivileged store is not yet prepared, and the domain of the specification's example:
  partitions \<open>[0x1000, 0x2000)\<close> read+write and \<open>[0x2000, 0x2800)\<close> read-only.
\<close>

definition sample_conf :: kconfig where
  "sample_conf = \<lparr>CONFIG_ASSERT = False, CONFIG_PMP_STACK_GUARD = True, CONFIG_PMP_SLOTS = 8\<rparr>"

definition sample_globals :: pmp_globals where
  "sample_globals =
     \<lparr>global_pmp_cfg = [0x9D, 0, 0, 0], global_pmp_end_index = 1,
      rom_region_start = 0x80000000, rom_region_size = 0x8000\<rparr>"

definition sample_thread :: k_thread where
  "sample_thread =
     \<lparr>stack_info_start = 0x3000, stack_info_size = 0x1000,
      u_mode_pmpaddr_regs = [0x20000FFF, 0, 0, 0, 0, 0, 0, 0],
      u_mode_pmpcfg_regs = [0, 0, 0, 0, 0, 0, 0, 0],
      u_mode_pmp_domain_offset = 0, u_mode_pmp_end_index = 0, u_mode_pmp_update_nr = 0\<rparr>"

definition sample_domain :: k_mem_domain where
  "sample_domain =
     \<lparr>partitions =
        [\<lparr>part_start = 0x1000, part_size = 0x1000, part_pmp_attr = PMP_R OR PMP_W\<rparr>,
         \<lparr>part_start = 0x2000, part_size = 0x800, part_pmp_attr = PMP_R\<rparr>],
      num_partitions = 2, domain_pmp_update_nr = 2\<rparr>"

text \<open>
  The sample thread after \<open>z_riscv_pmp_usermode_prepare\<close> (its stack in slot 1), and
  after its first switch with the sample domain (the two partitions in slots 2 and 3).
\<close>

definition sample_prepared :: k_thread where
  "sample_prepared =
     \<lparr>stack_info_start = 0x3000, stack_info_size = 0x1000,
      u_mode_pmpaddr_regs = [0x20000FFF, 0xDFF, 0, 0, 0, 0, 0, 0],
      u_mode_pmpcfg_regs = [0x9D, 0x1B, 0, 0, 0, 0, 0, 0],
      u_mode_pmp_domain_offset = 2, u_mode_pmp_end_index = 2, u_mode_pmp_update_nr = 0\<rparr>"

definition sample_synced :: k_thread where
  "sample_synced =
     \<lparr>stack_info_start = 0x3000, stack_info_size = 0x1000,
      u_mode_pmpaddr_regs = [0x20000FFF, 0xDFF, 0x5FF, 0x8FF, 0, 0, 0, 0],
      u_mode_pmpcfg_regs = [0x9D, 0x1B, 0x1B, 0x19, 0, 0, 0, 0],
      u_mode_pmp_domain_offset = 2, u_mode_pmp_end_index = 4, u_mode_pmp_update_nr = 2\<rparr>"

section \<open>Proofs\<close>

subsection \<open>Words\<close>

lemmas pmp_consts =
  PMP_R_def PMP_W_def PMP_X_def PMP_A_def PMP_L_def PMP_TOR_def PMP_NA4_def PMP_NAPOT_def
  PMP_NONE_def


lemma pow2_and_decr: 
  fixes k :: nat
  shows "(2 ^ k :: 'a::len word) AND (2 ^ k - 1) = 0"
  by (rule bit_eqI) (auto simp flip: mask_eq_decr_exp simp add: bit_simps)

lemma bit_push_drop:
  fixes w :: "'a::len word"
  shows "bit (push_bit j (drop_bit j w)) n \<longleftrightarrow> j \<le> n \<and> bit w n"
  by (auto simp: bit_simps dest: bit_imp_le_length)

lemma word_pow2_cases:
  fixes w :: "'a::len word"
  assumes z: "w AND (w - 1) = 0" and nz: "w \<noteq> 0"
  shows "\<exists>k<LENGTH('a). w = 2 ^ k"
proof -
  from nz have "\<exists>n. bit w n"
    by (auto simp: bit_eq_iff)
  then obtain k where k: "bit w k" and least: "\<And>m. m < k \<Longrightarrow> \<not> bit w m"
    using exists_least_iff [of "bit w"] by blast
  have klen: "k < LENGTH('a)"
    using k by (rule bit_imp_le_length)
  define j where "j = Suc k"
  define hi where "hi = push_bit j (drop_bit j w)"
  have lo: "take_bit j w = 2 ^ k"
    using k least klen
    by (intro bit_eqI) (auto simp: bit_simps less_Suc_eq j_def)
  have w_eq: "w = hi + 2 ^ k"
    using bits_ident [of j w] lo by (simp add: hi_def)
  have "w - 1 = hi + mask k"
    by (simp add: w_eq mask_eq_decr_exp)
  also have "\<dots> = hi OR mask k"
    by (rule disjunctive_add) (auto simp: hi_def bit_push_drop bit_simps j_def)
  finally have decr: "w - 1 = hi OR mask k" .
  have "hi = 0"
  proof (rule bit_eqI)
    fix n
    have "\<not> bit (w AND (w - 1)) n"
      by (simp add: z)
    moreover have "bit hi n \<Longrightarrow> bit w n"
      by (simp add: hi_def bit_push_drop)
    ultimately show "bit hi n \<longleftrightarrow> bit (0 :: 'a word) n"
      by (auto simp: decr bit_and_iff bit_or_iff)
  qed
  with w_eq have "w = 2 ^ k" by simp
  with klen show ?thesis by blast
qed

text \<open>The arithmetic of the power-of-two encoding.\<close>

lemma aligned_bit:
  fixes start :: "'a::len word"
  assumes "start AND (2 ^ k - 1) = 0" "n < k"
  shows "\<not> bit start n"
proof
  assume "bit start n"
  with assms(2) have "bit (start AND mask k) n"
    by (simp add: bit_simps bit_imp_le_length)
  with assms(1) show False
    by (simp add: mask_eq_decr_exp)
qed

lemma napot_tmp:
  fixes start :: "'a::len word"
  assumes k3: "3 \<le> k" and kl: "k < LENGTH('a)" and al: "start AND (2 ^ k - 1) = 0"
  shows "push_bit 2 (drop_bit 2 (start OR drop_bit 1 (2 ^ k - 1))) OR 3 = start OR mask (k - 1)"
proof -
  have m: "drop_bit 1 (2 ^ k - 1 :: 'a word) = mask (k - 1)"
    using k3 kl by (intro bit_eqI) (auto simp flip: mask_eq_decr_exp simp add: bit_simps)
  have three: "(3 :: 'a word) = mask 2"
    by (simp add: mask_eq_decr_exp)
  show ?thesis
    unfolding m three using k3
    by (intro bit_eqI) (auto simp: bit_push_drop bit_or_iff bit_mask_iff)
qed

lemma napot_succ:
  fixes start :: "'a::len word"
  assumes k3: "3 \<le> k" and al: "start AND (2 ^ k - 1) = 0"
  shows "(start OR mask (k - 1)) + 1 = start OR 2 ^ (k - 1)"
proof -
  have "start OR mask (k - 1) = start + mask (k - 1)"
    by (rule disjunctive_add [symmetric]) (use aligned_bit [OF al] in \<open>auto simp: bit_simps\<close>)
  also have "\<dots> + 1 = start + 2 ^ (k - 1)"
    by (simp add: mask_eq_decr_exp)
  also have "\<dots> = start OR 2 ^ (k - 1)"
    by (rule disjunctive_add) (use aligned_bit [OF al] k3 in \<open>auto simp: bit_simps\<close>)
  finally show ?thesis .
qed

lemma napot_start:
  fixes start :: "'a::len word"
  assumes k3: "3 \<le> k" and al: "start AND (2 ^ k - 1) = 0"
  shows "(start OR mask (k - 1)) AND (start OR 2 ^ (k - 1)) = start"
  by (rule bit_eqI) (auto simp: bit_simps)

lemma napot_end:
  fixes start :: "'a::len word"
  assumes k3: "3 \<le> k" and al: "start AND (2 ^ k - 1) = 0"
  shows "(start OR mask (k - 1)) OR (start OR 2 ^ (k - 1)) = start + 2 ^ k - 1"
proof -
  have "start + 2 ^ k - 1 = start + mask k"
    by (simp add: mask_eq_decr_exp)
  also have "\<dots> = start OR mask k"
    by (rule disjunctive_add) (use aligned_bit [OF al] in \<open>auto simp: bit_simps\<close>)
  also have "\<dots> = (start OR mask (k - 1)) OR (start OR 2 ^ (k - 1))"
    using k3 by (intro bit_eqI) (auto simp: bit_simps)
  finally show ?thesis by simp
qed


lemma unat_pow2: "k < 32 \<Longrightarrow> unat (2 ^ k :: ulong_t) = 2 ^ k"
proof -
  assume k: "k < 32"
  have "unat (2 ^ k :: ulong_t) = unat (push_bit k 1 :: ulong_t)"
    by (simp add: push_bit_eq_mult)
  also have "\<dots> = take_bit 32 (push_bit k (1::nat))"
    by (simp only: unsigned_push_bit_eq unsigned_1) simp
  also have "\<dots> = 2 ^ k"
    using k by (simp add: push_bit_eq_mult take_bit_nat_eq_self_iff)
  finally show ?thesis .
qed

lemma and_decr_pow2_iff:
  fixes start :: ulong_t
  shows "start AND (2 ^ k - 1) = 0 \<longleftrightarrow> unat start mod 2 ^ k = 0"
proof -
  have "start AND (2 ^ k - 1) = take_bit k start"
    by (simp add: take_bit_eq_mask mask_eq_decr_exp)
  moreover have "take_bit k start = 0 \<longleftrightarrow> unat (take_bit k start) = 0"
    by (simp add: unat_eq_0)
  moreover have "unat (take_bit k start) = unat start mod 2 ^ k"
    unfolding unsigned_take_bit_eq by (simp add: take_bit_eq_mod)
  ultimately show ?thesis by simp
qed


lemma pow2_test_iff:
  fixes start sz :: ulong_t
  shows "sz AND (sz - 1) = 0 \<and> start AND (sz - 1) = 0 \<longleftrightarrow>
         start = 0 \<and> sz = 0 \<or> power_of_two sz \<and> naturally_aligned start sz"
proof (cases "sz = 0")
  case True
  then show ?thesis
    by (auto simp: power_of_two_def)
next
  case False
  have "power_of_two sz \<longleftrightarrow> sz AND (sz - 1) = 0"
  proof
    assume "power_of_two sz"
    then show "sz AND (sz - 1) = 0"
      by (auto simp: power_of_two_def pow2_and_decr)
  next
    assume "sz AND (sz - 1) = 0"
    with False show "power_of_two sz"
      using word_pow2_cases [of sz] by (auto simp: power_of_two_def)
  qed
  moreover have "naturally_aligned start sz \<longleftrightarrow> start AND (sz - 1) = 0" if "power_of_two sz"
    using that by (auto simp: power_of_two_def naturally_aligned_def and_decr_pow2_iff unat_pow2)
  ultimately show ?thesis
    using False by auto
qed



lemma aligned4_push_drop:
  fixes x :: ulong_t
  assumes "x AND 3 = 0"
  shows "push_bit 2 (drop_bit 2 x) = x"
proof -
  have "take_bit 2 x = 0"
    using assms by (simp add: take_bit_eq_mask mask_eq_decr_exp)
  with bits_ident [of 2 x] show ?thesis by simp
qed

lemma push2_and_3:
  fixes z :: ulong_t
  shows "push_bit 2 z AND 3 = 0"
proof -
  have "(3 :: ulong_t) = mask 2"
    by (simp add: mask_eq_decr_exp)
  then show ?thesis
    by (simp add: bit_eq_iff bit_simps)
qed

lemma aligned4_add:
  fixes x y :: ulong_t
  assumes "x AND 3 = 0" "y AND 3 = 0"
  shows "(x + y) AND 3 = 0"
proof -
  have "x + y = push_bit 2 (drop_bit 2 x) + push_bit 2 (drop_bit 2 y)"
    using assms by (simp add: aligned4_push_drop)
  also have "\<dots> = push_bit 2 (drop_bit 2 x + drop_bit 2 y)"
    by (simp add: push_bit_add)
  finally show ?thesis
    by (simp only: push2_and_3)
qed

lemma aligned4_decr_neq_0:
  fixes x :: ulong_t
  assumes "x AND 3 = 0"
  shows "x - 1 \<noteq> 0"
proof
  assume "x - 1 = 0"
  then have "x = 1" by simp
  with assms show False by simp
qed

lemma mode_bits:
  fixes perm :: uint8_t
  assumes "perm AND PMP_A = 0"
  shows "(perm OR PMP_TOR) AND PMP_A = PMP_TOR"
    and "(perm OR PMP_NA4) AND PMP_A = PMP_NA4"
    and "(perm OR PMP_NAPOT) AND PMP_A = PMP_NAPOT"
  using assms by (simp_all add: pmp_consts bit.conj_disj_distrib2)

lemma perm_bits:
  fixes perm :: uint8_t
  shows "(perm OR PMP_TOR) AND PMP_R = perm AND PMP_R"
    and "(perm OR PMP_TOR) AND PMP_W = perm AND PMP_W"
    and "(perm OR PMP_TOR) AND PMP_X = perm AND PMP_X"
    and "(perm OR PMP_TOR) AND PMP_L = perm AND PMP_L"
    and "(perm OR PMP_NA4) AND PMP_R = perm AND PMP_R"
    and "(perm OR PMP_NA4) AND PMP_W = perm AND PMP_W"
    and "(perm OR PMP_NA4) AND PMP_X = perm AND PMP_X"
    and "(perm OR PMP_NA4) AND PMP_L = perm AND PMP_L"
    and "(perm OR PMP_NAPOT) AND PMP_R = perm AND PMP_R"
    and "(perm OR PMP_NAPOT) AND PMP_W = perm AND PMP_W"
    and "(perm OR PMP_NAPOT) AND PMP_X = perm AND PMP_X"
    and "(perm OR PMP_NAPOT) AND PMP_L = perm AND PMP_L"
  by (simp_all add: pmp_consts bit.conj_disj_distrib2)

lemma mode_distinct:
  "PMP_TOR \<noteq> PMP_NA4" "PMP_TOR \<noteq> PMP_NAPOT" "PMP_NA4 \<noteq> PMP_NAPOT"
  "PMP_NA4 \<noteq> PMP_TOR" "PMP_NAPOT \<noteq> PMP_TOR" "PMP_NAPOT \<noteq> PMP_NA4"
  "0 AND PMP_A \<noteq> PMP_TOR" "0 AND PMP_A \<noteq> PMP_NA4" "0 AND PMP_A \<noteq> PMP_NAPOT"
  by (simp_all add: pmp_consts)



lemma print_one:
  "print_pmp_entries index (Suc index) pmp_addr pmp_n_cfg = [print_pmp_entry index pmp_addr pmp_n_cfg]"
  by (simp add: print_pmp_entries_def)

lemma print_two:
  "print_pmp_entries index (Suc (Suc index)) pmp_addr pmp_n_cfg =
     [print_pmp_entry index pmp_addr pmp_n_cfg, print_pmp_entry (Suc index) pmp_addr pmp_n_cfg]"
  by (simp add: print_pmp_entries_def upt_rec [of index "Suc (Suc index)"] upt_rec [of "Suc index" "Suc (Suc index)"])

lemma print_tor:
  assumes al: "start AND 3 = 0" "sz AND 3 = 0" and pa: "perm AND PMP_A = 0"
    and pmp_addr: "pmp_addr ! index = PMP_ADDR (start + sz)"
    and pmp_n_cfg: "pmp_n_cfg ! index = perm OR PMP_TOR"
    and prev: "index = 0 \<and> start = 0 \<or> index \<noteq> 0 \<and> pmp_addr ! (index - 1) = PMP_ADDR start"
  shows "print_pmp_entry index pmp_addr pmp_n_cfg =
           Decoded index (PMP_ADDR (start + sz)) (perm OR PMP_TOR) start (start + sz - 1)
             (perm AND PMP_R \<noteq> 0) (perm AND PMP_W \<noteq> 0) (perm AND PMP_X \<noteq> 0) (perm AND PMP_L \<noteq> 0)"
proof -
  have e: "push_bit 2 (PMP_ADDR (start + sz)) = start + sz"
    using al by (simp add: PMP_ADDR_def aligned4_push_drop aligned4_add)
  have s: "(if index = 0 then 0 else push_bit 2 (pmp_addr ! (index - 1))) = start"
    using prev al by (auto simp: PMP_ADDR_def aligned4_push_drop)
  have nz: "start + sz - 1 \<noteq> 0"
    using al by (intro aligned4_decr_neq_0 aligned4_add)
  have "decode_range index pmp_addr pmp_n_cfg = (start, start + sz - 1)"
    unfolding decode_range_def Let_def pmp_n_cfg mode_bits(1) [OF pa] pmp_addr e s
    by simp
  then show ?thesis
    using nz by (simp add: print_pmp_entry_def pmp_addr pmp_n_cfg perm_bits)
qed


lemma print_off:
  assumes "pmp_n_cfg ! index = 0"
  shows "print_pmp_entry index pmp_addr pmp_n_cfg = Raw index (pmp_addr ! index) 0"
  using assms by (simp add: print_pmp_entry_def decode_range_def pmp_consts)

lemma print_na4:
  assumes al: "start AND 3 = 0" and pa: "perm AND PMP_A = 0"
    and pmp_addr: "pmp_addr ! index = PMP_ADDR_NAPOT start 4"
    and pmp_n_cfg: "pmp_n_cfg ! index = perm OR PMP_NA4"
  shows "print_pmp_entry index pmp_addr pmp_n_cfg =
           Decoded index (PMP_ADDR_NAPOT start 4) (perm OR PMP_NA4) start (start + 4 - 1)
             (perm AND PMP_R \<noteq> 0) (perm AND PMP_W \<noteq> 0) (perm AND PMP_X \<noteq> 0) (perm AND PMP_L \<noteq> 0)"
proof -
  have "drop_bit 2 (start OR 1) = drop_bit 2 start"
    by (rule bit_eqI) (simp add: bit_simps)
  then have s: "push_bit 2 (PMP_ADDR_NAPOT start 4) = start"
    using al by (simp add: PMP_ADDR_NAPOT_def PMP_ADDR_def NAPOT_RANGE_def aligned4_push_drop)
  have "(start + 4) AND 3 = 0"
    using al by (intro aligned4_add) simp_all
  then have nz: "start + 3 \<noteq> 0"
    using aligned4_decr_neq_0 [of "start + 4"] by (simp add: add.commute)
  have "decode_range index pmp_addr pmp_n_cfg = (start, start + 3)"
    unfolding decode_range_def Let_def pmp_n_cfg mode_bits(2) [OF pa] pmp_addr s
    by (simp add: mode_distinct)
  then show ?thesis
    using nz by (simp add: print_pmp_entry_def pmp_addr pmp_n_cfg perm_bits)
qed

lemma print_napot:
  assumes k: "3 \<le> k" "k < 32" and al: "start AND (2 ^ k - 1) = 0" and pa: "perm AND PMP_A = 0"
    and pmp_addr: "pmp_addr ! index = PMP_ADDR_NAPOT start (2 ^ k)"
    and pmp_n_cfg: "pmp_n_cfg ! index = perm OR PMP_NAPOT"
  shows "print_pmp_entry index pmp_addr pmp_n_cfg =
           Decoded index (PMP_ADDR_NAPOT start (2 ^ k)) (perm OR PMP_NAPOT) start (start + 2 ^ k - 1)
             (perm AND PMP_R \<noteq> 0) (perm AND PMP_W \<noteq> 0) (perm AND PMP_X \<noteq> 0) (perm AND PMP_L \<noteq> 0)"
proof -
  define tmp where "tmp = push_bit 2 (PMP_ADDR_NAPOT start (2 ^ k)) OR 3"
  have tmp: "tmp = start OR mask (k - 1)"
    unfolding tmp_def PMP_ADDR_NAPOT_def PMP_ADDR_def NAPOT_RANGE_def
    using k al by (intro napot_tmp) simp_all
  have succ: "tmp + 1 = start OR 2 ^ (k - 1)"
    unfolding tmp using k(1) al by (rule napot_succ)
  have s: "tmp AND (tmp + 1) = start"
    unfolding succ unfolding tmp using k(1) al by (rule napot_start)
  have e: "tmp OR (tmp + 1) = start + 2 ^ k - 1"
    unfolding succ unfolding tmp using k(1) al by (rule napot_end)
  have "bit (start + 2 ^ k - 1) 0"
    unfolding e [symmetric] tmp using k(1) by (simp add: bit_simps)
  then have nz: "start + 2 ^ k - 1 \<noteq> 0"
    by auto
  have "decode_range index pmp_addr pmp_n_cfg = (start, start + 2 ^ k - 1)"
    unfolding decode_range_def Let_def pmp_n_cfg mode_bits(3) [OF pa] pmp_addr
    using s e by (simp add: mode_distinct tmp_def)
  then show ?thesis
    using nz by (simp add: print_pmp_entry_def pmp_addr pmp_n_cfg perm_bits)
qed


lemma pow2_aligned_ge3:
  fixes sz :: ulong_t
  assumes "sz AND (sz - 1) = 0" "sz \<noteq> 0" "sz AND 3 = 0" "sz \<noteq> 4"
  shows "\<exists>k. 3 \<le> k \<and> k < 32 \<and> sz = 2 ^ k"
proof -
  from assms(1,2) obtain k where k: "k < 32" "sz = 2 ^ k"
    using word_pow2_cases [of sz] by auto
  have "k \<noteq> 0"
    using assms(3) k(2) by (intro notI) simp
  moreover have "k \<noteq> 1"
    using assms(3) k(2) by (intro notI) simp
  moreover have "k \<noteq> 2"
    using assms(4) k(2) by (intro notI) simp
  ultimately have "3 \<le> k" by arith
  with k show ?thesis by blast
qed

lemma napot_whole: "PMP_ADDR_NAPOT 0 0 = 0x1FFFFFFF"
proof -
  have "(0 - 1 :: ulong_t) = 0xFFFFFFFF"
    by simp
  then show ?thesis
    unfolding PMP_ADDR_NAPOT_def NAPOT_RANGE_def PMP_ADDR_def
    by (simp add: drop_bit_eq_div)
qed



lemma PMP_ADDR_inj:
  assumes "x AND 3 = 0" "y AND 3 = 0"
  shows "PMP_ADDR x = PMP_ADDR y \<longleftrightarrow> x = y"
proof
  assume "PMP_ADDR x = PMP_ADDR y"
  then have "push_bit 2 (drop_bit 2 x) = push_bit 2 (drop_bit 2 y)"
    by (simp add: PMP_ADDR_def)
  with assms show "x = y"
    by (simp add: aligned4_push_drop)
qed simp

lemma bit_add_pow2_flip:
  fixes x :: ulong_t
  assumes al: "x AND (2 ^ k - 1) = 0" and k: "k < 32"
  shows "bit (x + 2 ^ k) k \<longleftrightarrow> \<not> bit x k"
proof -
  define m where "m = drop_bit k x"
  have "take_bit k x = 0"
    using al by (simp add: take_bit_eq_mask mask_eq_decr_exp)
  with bits_ident [of k x] have x: "x = push_bit k m"
    by (simp add: m_def)
  have "x + 2 ^ k = push_bit k (m + 1)"
    by (simp add: x push_bit_eq_mult algebra_simps)
  then have "bit (x + 2 ^ k) k \<longleftrightarrow> bit (m + 1) 0"
    using k by (simp add: bit_push_bit_iff)
  also have "\<dots> \<longleftrightarrow> \<not> bit m 0"
    by (simp add: bit_0)
  also have "bit m 0 \<longleftrightarrow> bit x k"
    by (simp add: m_def bit_drop_bit_eq)
  finally show ?thesis .
qed

lemma napot_not_end:
  assumes shape: "sz0 AND (sz0 - 1) = 0 \<and> start0 AND (sz0 - 1) = 0"
    and al: "sz0 AND 3 = 0"
  shows "PMP_ADDR (start0 + sz0) \<noteq> PMP_ADDR_NAPOT start0 sz0"
proof (cases "sz0 = 0")
  case True
  with shape have "start0 = 0"
    by simp
  with True show ?thesis
    by (simp add: napot_whole) (simp add: PMP_ADDR_def)
next
  case False
  with shape obtain k where k: "k < 32" "sz0 = 2 ^ k"
    using word_pow2_cases [of sz0] by auto
  have "k \<noteq> 0"
    using al k(2) by (intro notI) simp
  moreover have "k \<noteq> 1"
    using al k(2) by (intro notI) simp
  ultimately have k2: "2 \<le> k"
    by arith
  from shape k have a: "start0 AND (2 ^ k - 1) = 0"
    by simp
  have kk: "2 + (k - 2) = k" "Suc (k - 2) = k - 1" "Suc (k - 1) = k"
    using k2 by simp_all
  have "bit (PMP_ADDR (start0 + sz0)) (k - 2) \<longleftrightarrow> bit (start0 + 2 ^ k) k"
    unfolding PMP_ADDR_def k(2) bit_drop_bit_eq comp_def kk ..
  also have "\<dots> \<longleftrightarrow> \<not> bit start0 k"
    using a k(1) by (rule bit_add_pow2_flip)
  finally have l: "bit (PMP_ADDR (start0 + sz0)) (k - 2) \<longleftrightarrow> \<not> bit start0 k" .
  have "bit (PMP_ADDR_NAPOT start0 sz0) (k - 2) \<longleftrightarrow>
          bit (start0 OR drop_bit 1 (mask k)) k"
    unfolding PMP_ADDR_NAPOT_def NAPOT_RANGE_def PMP_ADDR_def k(2) bit_drop_bit_eq comp_def kk
      mask_eq_decr_exp ..
  also have "\<dots> \<longleftrightarrow> bit start0 k"
    by (simp add: bit_or_iff bit_drop_bit_eq bit_mask_iff)
  finally have r: "bit (PMP_ADDR_NAPOT start0 sz0) (k - 2) \<longleftrightarrow> bit start0 k" .
  from l r show ?thesis
    by metis
qed

lemma prior_register:
  assumes ok0: "set_pmp_entry asserts index0 perm0 start0 sz0 addr0 cfg0 index_limit =
                  Inr (True, index, pmp_addr, pmp_n_cfg)"
    and len: "index_limit \<le> length addr0"
  shows "index \<noteq> 0 \<and>
         pmp_addr ! (index - 1) =
           (if chaining index0 start0 addr0 \<or>
               \<not> (sz0 AND (sz0 - 1) = 0 \<and> start0 AND (sz0 - 1) = 0)
            then PMP_ADDR (start0 + sz0) else PMP_ADDR_NAPOT start0 sz0)"
proof -
  from ok0 have "index0 < index_limit"
    by (simp add: set_pmp_entry_def split: if_splits)
  with len have i0: "index0 < length addr0"
    by simp
  have i1: "Suc index0 < length addr0" if "\<not> index_limit \<le> Suc index0"
    using that len by simp
  from ok0 i0 i1 show ?thesis
    by (auto simp: set_pmp_entry_def chaining_def split: if_splits)
qed

subsection \<open>Claims about the region encoder\<close>

text \<open>
  C9. Whenever \<open>set_pmp_entry\<close> returns false (out of slots, in the one-slot or in the
  two-slot case) the cursor and both shadow arrays are exactly as they were on entry.
\<close>

theorem set_pmp_entry_failure_atomic:
  assumes "set_pmp_entry asserts index perm start sz pmp_addr pmp_n_cfg index_limit =
             Inr (False, index', pmp_addr', pmp_n_cfg')"
  shows "index' = index \<and> pmp_addr' = pmp_addr \<and> pmp_n_cfg' = pmp_n_cfg"
  using assms by (simp add: set_pmp_entry_def split: if_splits)


theorem set_pmp_entry_failure_atomic_witness:
  "set_pmp_entry False 1 0x03 0x1000 0x300 [0x7, 0x9] [0x0b, 0x1f] 2 =
     Inr (False, 1, [0x7, 0x9], [0x0b, 0x1f])
   \<and> (1::nat) = 1 \<and> [0x7, 0x9 :: ulong_t] = [0x7, 0x9] \<and> [0x0b, 0x1f :: uint8_t] = [0x0b, 0x1f]"
proof -
  have h: "set_pmp_entry False 1 0x03 0x1000 0x300 [0x7, 0x9] [0x0b, 0x1f] 2 =
             Inr (False, 1, [0x7, 0x9], [0x0b, 0x1f])"
    by (simp add: set_pmp_entry_def PMP_ADDR_def)
  show ?thesis
    using h set_pmp_entry_failure_atomic [OF h] by simp
qed

text \<open>
  C2, as stated, fails twice. (a) After the region \<open>[0x1000, 0x2000)\<close> has been written
  as one NAPOT entry, the request \<open>start = 0\<close>, \<open>size = 0\<close> takes one slot, although it
  is not the first entry, does not start at the prior region's end, and 0 is not a power of
  two. (b) After the same NAPOT entry, the region \<open>[0x2000, 0x3800)\<close> starts at the prior
  region's end and yet takes two slots: the preceding address register holds the NAPOT
  encoding \<open>0x5FF\<close>, not the prior region's end.
\<close>

theorem set_pmp_entry_slots_counterexample:
  "set_pmp_entry False 0 3 0x1000 0x1000 [0, 0, 0] [0, 0, 0] 3 =
     Inr (True, 1, [0x5FF, 0, 0], [0x1B, 0, 0])
   \<and> set_pmp_entry False 1 7 0 0 [0x5FF, 0, 0] [0x1B, 0, 0] 3 =
       Inr (True, 1 + 1, [0x5FF, 0x1FFFFFFF, 0], [0x1B, 0x1F, 0])
   \<and> \<not> ((1::nat) = 0 \<and> (0::ulong_t) = 0 \<or> starts_at_end_of 0 0x1000 0x1000
          \<or> power_of_two 0 \<and> naturally_aligned 0 0)
   \<and> set_pmp_entry False 1 3 0x2000 0x1800 [0x5FF, 0, 0] [0x1B, 0, 0] 3 =
       Inr (True, 1 + 2, [0x5FF, 0x800, 0xE00], [0x1B, 0, 0x0B])
   \<and> starts_at_end_of 0x2000 0x1000 0x1000"
proof -
  have "\<not> power_of_two 0"
    by (simp add: power_of_two_def)
  moreover have "set_pmp_entry False 1 7 0 0 [0x5FF, 0, 0] [0x1B, 0, 0] 3 =
       Inr (True, 1 + 1, [0x5FF, 0x1FFFFFFF, 0], [0x1B, 0x1F, 0])"
    by (simp add: set_pmp_entry_def napot_whole pmp_consts) (simp add: PMP_ADDR_def)
  moreover have "set_pmp_entry False 0 3 0x1000 0x1000 [0, 0, 0] [0, 0, 0] 3 =
     Inr (True, 1, [0x5FF, 0, 0], [0x1B, 0, 0])"
    by (simp add: set_pmp_entry_def PMP_ADDR_def PMP_ADDR_NAPOT_def NAPOT_RANGE_def pmp_consts)
  moreover have "set_pmp_entry False 1 3 0x2000 0x1800 [0x5FF, 0, 0] [0x1B, 0, 0] 3 =
       Inr (True, 1 + 2, [0x5FF, 0x800, 0xE00], [0x1B, 0, 0x0B])"
    by (simp add: set_pmp_entry_def PMP_ADDR_def pmp_consts)
  ultimately show ?thesis
    by (simp add: starts_at_end_of_def)
qed

text \<open>
  C2, amended. A successful \<open>set_pmp_entry\<close> advances the cursor by exactly 1 when the
  chaining test fires (first entry with start 0, or the preceding address register equals
  \<open>PMP_ADDR start\<close>), when the size is a power of two and the start is a multiple of it,
  or when \<open>start = 0\<close> and \<open>size = 0\<close>; in every other case by exactly 2. Off the chaining
  path the one-slot entry has mode NA4 for size 4 and NAPOT otherwise, and a 4-byte-aligned
  power-of-two size is 4 or at least 8. Where the preceding slot was written by a successful
  call for a prior 4-byte-aligned region: if that region was written with a top-of-range
  entry (it chained, or took two slots), the chaining test fires exactly when this region
  starts at the prior region's end; if it was written as a single NA4 or NAPOT entry, the
  test compares with that entry's NAPOT-encoded register, and a region that starts at the
  prior region's end does not chain.
\<close>

theorem set_pmp_entry_slots:
  assumes ok: "set_pmp_entry asserts index perm start sz pmp_addr pmp_n_cfg index_limit =
             Inr (True, index', pmp_addr', pmp_n_cfg')"
  shows "index' = index +
           (if chaining index start pmp_addr
               \<or> power_of_two sz \<and> naturally_aligned start sz
               \<or> start = 0 \<and> sz = 0
            then 1 else 2) \<and>
         (\<not> chaining index start pmp_addr \<and> power_of_two sz \<and> naturally_aligned start sz \<longrightarrow>
            pmp_n_cfg' = pmp_n_cfg[index := perm OR (if sz = 4 then PMP_NA4 else PMP_NAPOT)]) \<and>
         (power_of_two sz \<and> sz AND 3 = 0 \<longrightarrow> sz = 4 \<or> 8 \<le> sz) \<and>
         (set_pmp_entry asserts index0 perm0 start0 sz0 addr0 cfg0 index_limit =
            Inr (True, index, pmp_addr, pmp_n_cfg) \<and>
          index_limit \<le> length addr0 \<and>
          start0 AND 3 = 0 \<and> sz0 AND 3 = 0 \<and> start AND 3 = 0 \<longrightarrow>
            (if chaining index0 start0 addr0 \<or>
                \<not> (power_of_two sz0 \<and> naturally_aligned start0 sz0 \<or> start0 = 0 \<and> sz0 = 0)
             then chaining index start pmp_addr \<longleftrightarrow> starts_at_end_of start start0 sz0
             else (chaining index start pmp_addr \<longleftrightarrow>
                     PMP_ADDR start = PMP_ADDR_NAPOT start0 sz0) \<and>
                  (starts_at_end_of start start0 sz0 \<longrightarrow> \<not> chaining index start pmp_addr)))"
proof (intro conjI impI)
  have eq: "power_of_two sz \<and> naturally_aligned start sz \<or> start = 0 \<and> sz = 0 \<longleftrightarrow>
        sz AND (sz - 1) = 0 \<and> start AND (sz - 1) = 0"
    using pow2_test_iff [of sz start] by blast
  then show "index' = index +
           (if chaining index start pmp_addr
               \<or> power_of_two sz \<and> naturally_aligned start sz
               \<or> start = 0 \<and> sz = 0
            then 1 else 2)"
    using ok by (auto simp: set_pmp_entry_def chaining_def split: if_splits)
  show "pmp_n_cfg' = pmp_n_cfg[index := perm OR (if sz = 4 then PMP_NA4 else PMP_NAPOT)]"
    if that: "\<not> chaining index start pmp_addr \<and> power_of_two sz \<and> naturally_aligned start sz"
  proof -
    from that eq have "sz AND (sz - 1) = 0 \<and> start AND (sz - 1) = 0"
      by blast
    with that ok show ?thesis
      by (auto simp: set_pmp_entry_def chaining_def split: if_splits)
  qed
  show "sz = 4 \<or> 8 \<le> sz" if that: "power_of_two sz \<and> sz AND 3 = 0"
  proof (cases "sz = 4")
    case False
    from that have "sz AND (sz - 1) = 0" "sz \<noteq> 0"
      by (auto simp: power_of_two_def pow2_and_decr)
    with that False obtain k where k: "3 \<le> k" "k < 32" "sz = 2 ^ k"
      using pow2_aligned_ge3 [of sz] by blast
    have "(2::nat) ^ 3 \<le> 2 ^ k"
      using k(1) by (intro power_increasing) simp_all
    then have "unat (8 :: ulong_t) \<le> unat sz"
      using k by (simp add: unat_pow2)
    then show ?thesis
      by (simp add: word_le_nat_alt)
  qed simp
  show "if chaining index0 start0 addr0 \<or>
                \<not> (power_of_two sz0 \<and> naturally_aligned start0 sz0 \<or> start0 = 0 \<and> sz0 = 0)
             then chaining index start pmp_addr \<longleftrightarrow> starts_at_end_of start start0 sz0
             else (chaining index start pmp_addr \<longleftrightarrow>
                     PMP_ADDR start = PMP_ADDR_NAPOT start0 sz0) \<and>
                  (starts_at_end_of start start0 sz0 \<longrightarrow> \<not> chaining index start pmp_addr)"
    if prior: "set_pmp_entry asserts index0 perm0 start0 sz0 addr0 cfg0 index_limit =
            Inr (True, index, pmp_addr, pmp_n_cfg) \<and>
          index_limit \<le> length addr0 \<and>
          start0 AND 3 = 0 \<and> sz0 AND 3 = 0 \<and> start AND 3 = 0"
  proof -
    have eq0: "power_of_two sz0 \<and> naturally_aligned start0 sz0 \<or> start0 = 0 \<and> sz0 = 0 \<longleftrightarrow>
        sz0 AND (sz0 - 1) = 0 \<and> start0 AND (sz0 - 1) = 0"
      using pow2_test_iff [of sz0 start0] by blast
    from prior have reg: "index \<noteq> 0"
      "pmp_addr ! (index - 1) =
           (if chaining index0 start0 addr0 \<or>
               \<not> (sz0 AND (sz0 - 1) = 0 \<and> start0 AND (sz0 - 1) = 0)
            then PMP_ADDR (start0 + sz0) else PMP_ADDR_NAPOT start0 sz0)"
      using prior_register [of asserts index0 perm0 start0 sz0 addr0 cfg0 index_limit index
          pmp_addr pmp_n_cfg]
      by simp_all
    from reg(1) have ch: "chaining index start pmp_addr \<longleftrightarrow>
        pmp_addr ! (index - 1) = PMP_ADDR start"
      by (simp add: chaining_def)
    from prior have "(start0 + sz0) AND 3 = 0"
      by (intro aligned4_add) simp_all
    with prior have inj: "PMP_ADDR (start0 + sz0) = PMP_ADDR start \<longleftrightarrow> start0 + sz0 = start"
      by (intro PMP_ADDR_inj) simp_all
    show ?thesis
    proof (cases "chaining index0 start0 addr0 \<or>
               \<not> (sz0 AND (sz0 - 1) = 0 \<and> start0 AND (sz0 - 1) = 0)")
      case True
      with reg(2) have "pmp_addr ! (index - 1) = PMP_ADDR (start0 + sz0)"
        by simp
      with True ch inj eq0 show ?thesis
        by (auto simp: starts_at_end_of_def)
    next
      case False
      with reg(2) have r: "pmp_addr ! (index - 1) = PMP_ADDR_NAPOT start0 sz0"
        by simp
      from False prior have "PMP_ADDR (start0 + sz0) \<noteq> PMP_ADDR_NAPOT start0 sz0"
        by (intro napot_not_end) simp_all
      with False ch r eq0 show ?thesis
        by (auto simp: starts_at_end_of_def)
    qed
  qed
qed

theorem set_pmp_entry_slots_witness:
  "set_pmp_entry True 1 3 0x2000 0x1000 [0x400, 0, 0] [0x1f, 0, 0] 3 =
     Inr (True, 2, [0x400, 0x9FF, 0], [0x1f, 0x1b, 0])
   \<and> \<not> chaining 1 0x2000 [0x400, 0, 0] \<and> power_of_two 0x1000 \<and> naturally_aligned 0x2000 0x1000
   \<and> (0x1000 :: ulong_t) AND 3 = 0
   \<and> (2::nat) = 1 + 1
   \<and> [0x1f, 0x1b, 0] = [0x1f, 0, 0 :: uint8_t][1 := 3 OR PMP_NAPOT]
   \<and> ((0x1000 :: ulong_t) = 4 \<or> (8 :: ulong_t) \<le> 0x1000)
   \<and> set_pmp_entry True 0 3 0 0x1800 [0, 0, 0] [0, 0, 0] 3 =
       Inr (True, 1, [0x600, 0, 0], [0x0b, 0, 0])
   \<and> set_pmp_entry True 1 3 0x1800 0x1000 [0x600, 0, 0] [0x0b, 0, 0] 3 =
       Inr (True, 2, [0x600, 0xA00, 0], [0x0b, 0x0b, 0])
   \<and> (3::nat) \<le> length [0, 0, 0 :: ulong_t]
   \<and> (0 :: ulong_t) AND 3 = 0 \<and> (0x1800 :: ulong_t) AND 3 = 0
   \<and> chaining 0 0 [0, 0, 0]
   \<and> chaining 1 0x1800 [0x600, 0, 0] \<and> starts_at_end_of 0x1800 0 0x1800"
proof -
  have h: "set_pmp_entry True 1 3 0x2000 0x1000 [0x400, 0, 0] [0x1f, 0, 0] 3 =
     Inr (True, 2, [0x400, 0x9FF, 0], [0x1f, 0x1b, 0])"
    by (simp add: set_pmp_entry_def PMP_ADDR_def PMP_ADDR_NAPOT_def NAPOT_RANGE_def pmp_consts)
  have c: "\<not> chaining 1 0x2000 [0x400, 0, 0]"
    by (simp add: chaining_def PMP_ADDR_def)
  have p: "power_of_two 0x1000"
    unfolding power_of_two_def by (rule bexI [of _ 12]) simp_all
  have n: "naturally_aligned 0x2000 0x1000"
    by (simp add: naturally_aligned_def)
  have a: "(0x1000 :: ulong_t) AND 3 = 0"
    by simp
  note t = set_pmp_entry_slots [OF h]
  from t have "(2::nat) = 1 + (if chaining 1 0x2000 [0x400, 0, 0]
               \<or> power_of_two 0x1000 \<and> naturally_aligned 0x2000 0x1000
               \<or> (0x2000 :: ulong_t) = 0 \<and> (0x1000 :: ulong_t) = 0
            then 1 else 2)"
    by (rule conjunct1)
  then have one: "(2::nat) = 1 + 1"
    by (simp only: p n simp_thms if_True)
  from t c p n have "[0x1f, 0x1b, 0] =
      [0x1f, 0, 0 :: uint8_t][1 := 3 OR (if (0x1000 :: ulong_t) = 4 then PMP_NA4 else PMP_NAPOT)]"
    by blast
  then have cfg: "[0x1f, 0x1b, 0] = [0x1f, 0, 0 :: uint8_t][1 := 3 OR PMP_NAPOT]"
    by simp
  from t p a have sz: "(0x1000 :: ulong_t) = 4 \<or> (8 :: ulong_t) \<le> 0x1000"
    by blast
  have h0: "set_pmp_entry True 0 3 0 0x1800 [0, 0, 0] [0, 0, 0] 3 =
       Inr (True, 1, [0x600, 0, 0], [0x0b, 0, 0])"
    by (simp add: set_pmp_entry_def PMP_ADDR_def pmp_consts)
  have h1: "set_pmp_entry True 1 3 0x1800 0x1000 [0x600, 0, 0] [0x0b, 0, 0] 3 =
       Inr (True, 2, [0x600, 0xA00, 0], [0x0b, 0x0b, 0])"
    by (simp add: set_pmp_entry_def PMP_ADDR_def pmp_consts)
  have l: "(3::nat) \<le> length [0, 0, 0 :: ulong_t]"
    by simp
  have al: "(0 :: ulong_t) AND 3 = 0" "(0x1800 :: ulong_t) AND 3 = 0"
    by simp_all
  have c0: "chaining 0 0 [0, 0, 0]"
    by (simp add: chaining_def)
  have "if chaining 0 0 [0, 0, 0] \<or>
           \<not> (power_of_two 0x1800 \<and> naturally_aligned 0 0x1800 \<or>
              (0::ulong_t) = 0 \<and> (0x1800::ulong_t) = 0)
        then chaining 1 0x1800 [0x600, 0, 0] \<longleftrightarrow> starts_at_end_of 0x1800 0 0x1800
        else (chaining 1 0x1800 [0x600, 0, 0] \<longleftrightarrow> PMP_ADDR 0x1800 = PMP_ADDR_NAPOT 0 0x1800) \<and>
             (starts_at_end_of 0x1800 0 0x1800 \<longrightarrow> \<not> chaining 1 0x1800 [0x600, 0, 0])"
    using set_pmp_entry_slots [where ?index0.0 = 0 and ?perm0.0 = 3 and ?start0.0 = 0
        and ?sz0.0 = "0x1800" and ?addr0.0 = "[0, 0, 0]" and ?cfg0.0 = "[0, 0, 0]", OF h1] h0 l al
    by blast
  with c0 have iff: "chaining 1 0x1800 [0x600, 0, 0] \<longleftrightarrow> starts_at_end_of 0x1800 0 0x1800"
    by (simp only: simp_thms if_True)
  have e: "starts_at_end_of 0x1800 0 0x1800"
    by (simp add: starts_at_end_of_def)
  with iff have c1: "chaining 1 0x1800 [0x600, 0, 0]"
    by blast
  from h c p n a one cfg sz h0 h1 l al c0 c1 e show ?thesis
    by (intro conjI)
qed




text \<open>
  C1. For 4-byte-aligned \<open>start\<close> and \<open>size\<close> with \<open>size > 0\<close>, a permission byte without
  address-mode bits, and any cursor state in which \<open>set_pmp_entry\<close> succeeds (the arrays
  being at least \<open>index_limit\<close> long): the dump of the slots it wrote shows exactly one
  range, with first address \<open>start\<close>, last address \<open>start + size - 1\<close>, and exactly the
  R, W, X and LOCKED bits of the permission passed in.
\<close>

theorem set_pmp_entry_roundtrip:
  assumes al: "start AND 3 = 0" "sz AND 3 = 0" and nz: "sz \<noteq> 0"
    and pa: "perm AND PMP_A = 0"
    and len: "index_limit \<le> length pmp_addr" "index_limit \<le> length pmp_n_cfg"
    and ok: "set_pmp_entry asserts index perm start sz pmp_addr pmp_n_cfg index_limit =
               Inr (True, index', pmp_addr', pmp_n_cfg')"
  shows "decoded_ranges (print_pmp_entries index index' pmp_addr' pmp_n_cfg') =
           [(start, start + sz - 1,
             perm AND PMP_R \<noteq> 0, perm AND PMP_W \<noteq> 0, perm AND PMP_X \<noteq> 0, perm AND PMP_L \<noteq> 0)]"
proof -
  from ok have lim: "index < index_limit"
    by (simp add: set_pmp_entry_def split: if_splits)
  with len have i: "index < length pmp_addr" "index < length pmp_n_cfg"
    by simp_all
  consider
    (tor) "index = 0 \<and> start = 0 \<or> index \<noteq> 0 \<and> pmp_addr ! (index - 1) = PMP_ADDR start"
  | (napot) "\<not> (index = 0 \<and> start = 0 \<or> index \<noteq> 0 \<and> pmp_addr ! (index - 1) = PMP_ADDR start)"
      "sz AND (sz - 1) = 0 \<and> start AND (sz - 1) = 0"
  | (two) "\<not> (index = 0 \<and> start = 0 \<or> index \<noteq> 0 \<and> pmp_addr ! (index - 1) = PMP_ADDR start)"
      "\<not> (sz AND (sz - 1) = 0 \<and> start AND (sz - 1) = 0)"
    by blast
  then show ?thesis
  proof cases
    case tor
    with ok lim al have r: "index' = index + 1"
      "pmp_addr' = pmp_addr[index := PMP_ADDR (start + sz)]"
      "pmp_n_cfg' = pmp_n_cfg[index := perm OR PMP_TOR]"
      by (auto simp: set_pmp_entry_def split: if_splits)
    have "print_pmp_entry index pmp_addr' pmp_n_cfg' =
            Decoded index (PMP_ADDR (start + sz)) (perm OR PMP_TOR) start (start + sz - 1)
              (perm AND PMP_R \<noteq> 0) (perm AND PMP_W \<noteq> 0) (perm AND PMP_X \<noteq> 0) (perm AND PMP_L \<noteq> 0)"
      using al pa i tor by (intro print_tor) (auto simp: r)
    then show ?thesis
      by (simp add: r(1) print_one)
  next
    case napot
    with ok lim al have r: "index' = index + 1"
      "pmp_addr' = pmp_addr[index := PMP_ADDR_NAPOT start sz]"
      "pmp_n_cfg' = pmp_n_cfg[index := perm OR (if sz = 4 then PMP_NA4 else PMP_NAPOT)]"
      by (auto simp: set_pmp_entry_def split: if_splits)
    show ?thesis
    proof (cases "sz = 4")
      case True
      have "print_pmp_entry index pmp_addr' pmp_n_cfg' =
            Decoded index (PMP_ADDR_NAPOT start 4) (perm OR PMP_NA4) start (start + 4 - 1)
              (perm AND PMP_R \<noteq> 0) (perm AND PMP_W \<noteq> 0) (perm AND PMP_X \<noteq> 0) (perm AND PMP_L \<noteq> 0)"
        using al pa i True by (intro print_na4) (auto simp: r)
      then show ?thesis
        by (simp add: r(1) print_one True)
    next
      case False
      with napot(2) nz al(2) obtain k where k: "3 \<le> k" "k < 32" "sz = 2 ^ k"
        using pow2_aligned_ge3 [of sz] by blast
      have "print_pmp_entry index pmp_addr' pmp_n_cfg' =
            Decoded index (PMP_ADDR_NAPOT start (2 ^ k)) (perm OR PMP_NAPOT) start (start + 2 ^ k - 1)
              (perm AND PMP_R \<noteq> 0) (perm AND PMP_W \<noteq> 0) (perm AND PMP_X \<noteq> 0) (perm AND PMP_L \<noteq> 0)"
        using k(1,2) pa i False napot(2) by (intro print_napot) (auto simp: r k(3))
      then show ?thesis
        by (simp add: r(1) print_one k(3))
    qed
  next
    case two
    with ok lim al have lim2: "index + 1 < index_limit"
      by (auto simp: set_pmp_entry_def split: if_splits)
    with two ok lim al have r: "index' = index + 2"
      "pmp_addr' = pmp_addr[index := PMP_ADDR start, index + 1 := PMP_ADDR (start + sz)]"
      "pmp_n_cfg' = pmp_n_cfg[index := 0, index + 1 := perm OR PMP_TOR]"
      by (auto simp: set_pmp_entry_def split: if_splits)
    from lim2 len have i2: "index + 1 < length pmp_addr" "index + 1 < length pmp_n_cfg"
      by simp_all
    have first: "print_pmp_entry index pmp_addr' pmp_n_cfg' = Raw index (pmp_addr' ! index) 0"
      using i by (intro print_off) (simp add: r)
    have "print_pmp_entry (index + 1) pmp_addr' pmp_n_cfg' =
            Decoded (index + 1) (PMP_ADDR (start + sz)) (perm OR PMP_TOR) start (start + sz - 1)
              (perm AND PMP_R \<noteq> 0) (perm AND PMP_W \<noteq> 0) (perm AND PMP_X \<noteq> 0) (perm AND PMP_L \<noteq> 0)"
      using al pa i i2 by (intro print_tor) (auto simp: r)
    then show ?thesis
      by (simp add: r(1) print_two first)
  qed
qed

theorem set_pmp_entry_roundtrip_witness:
  "(0x2000 :: ulong_t) AND 3 = 0 \<and> (0x1800 :: ulong_t) AND 3 = 0 \<and> (0x1800 :: ulong_t) \<noteq> 0
   \<and> (3 :: uint8_t) AND PMP_A = 0
   \<and> (3::nat) \<le> length [0x400, 0, 0 :: ulong_t] \<and> (3::nat) \<le> length [0x1f, 0, 0 :: uint8_t]
   \<and> set_pmp_entry True 1 3 0x2000 0x1800 [0x400, 0, 0] [0x1f, 0, 0] 3 =
        Inr (True, 3, [0x400, 0x800, 0xE00], [0x1f, 0, 0x0b])
   \<and> decoded_ranges (print_pmp_entries 1 3 [0x400, 0x800, 0xE00] [0x1f, 0, 0x0b]) =
        [(0x2000, 0x37FF, True, True, False, False)]"
proof -
  have a: "(0x2000 :: ulong_t) AND 3 = 0" "(0x1800 :: ulong_t) AND 3 = 0"
    "(0x1800 :: ulong_t) \<noteq> 0" "(3 :: uint8_t) AND PMP_A = 0"
    "(3::nat) \<le> length [0x400, 0, 0 :: ulong_t]" "(3::nat) \<le> length [0x1f, 0, 0 :: uint8_t]"
    by (simp_all add: pmp_consts)
  have h: "set_pmp_entry True 1 3 0x2000 0x1800 [0x400, 0, 0] [0x1f, 0, 0] 3 =
        Inr (True, 3, [0x400, 0x800, 0xE00], [0x1f, 0, 0x0b])"
    by (simp add: set_pmp_entry_def PMP_ADDR_def pmp_consts)
  show ?thesis
    using a h set_pmp_entry_roundtrip [OF a h] by (simp add: pmp_consts)
qed

subsection \<open>Claims about the register writer\<close>

lemma next_boundary_aligned:
  assumes "index mod PMPCFG_STRIDE = 0"
  shows "next_boundary index = index"
proof -
  from assms obtain q where "index = 4 * q"
    by (auto simp: PMPCFG_STRIDE_def)
  then show ?thesis
    by (simp add: next_boundary_def PMPCFG_STRIDE_def)
qed

lemma next_boundary_step:
  assumes "index mod PMPCFG_STRIDE \<noteq> 0"
  shows "next_boundary (index + 1) = next_boundary index \<and> index < next_boundary index"
proof -
  define q r where "q = index div 4" and "r = index mod 4"
  have i: "index = 4 * q + r"
    by (simp add: q_def r_def)
  have "r < 4" "r \<noteq> 0"
    using assms by (simp_all add: r_def PMPCFG_STRIDE_def)
  then consider "r = 1" | "r = 2" | "r = 3"
    by linarith
  then show ?thesis
    by cases (simp_all add: i next_boundary_def PMPCFG_STRIDE_def)
qed

lemma length_clear_trailing: "length (clear_trailing index pmp_n_cfg) = length pmp_n_cfg"
proof (induction index pmp_n_cfg rule: clear_trailing.induct)
  case (1 index pmp_n_cfg)
  show ?case
  proof (cases "index mod PMPCFG_STRIDE \<noteq> 0")
    case True
    with "1.IH" show ?thesis
      by (subst clear_trailing.simps) simp
  next
    case False
    then show ?thesis
      by (subst clear_trailing.simps) simp
  qed
qed

lemma nth_clear_trailing:
  "i < length pmp_n_cfg \<Longrightarrow>
   clear_trailing index pmp_n_cfg ! i =
     (if index \<le> i \<and> i < next_boundary index then 0 else pmp_n_cfg ! i)"
proof (induction index pmp_n_cfg rule: clear_trailing.induct)
  case (1 index pmp_n_cfg)
  show ?case
  proof (cases "index mod PMPCFG_STRIDE \<noteq> 0")
    case True
    note step = next_boundary_step [OF True]
    have "clear_trailing index pmp_n_cfg ! i =
            clear_trailing (index + 1) (pmp_n_cfg[index := 0]) ! i"
      using True by (subst clear_trailing.simps) simp
    also have "\<dots> = (if index + 1 \<le> i \<and> i < next_boundary (index + 1) then 0
                      else pmp_n_cfg[index := 0] ! i)"
      using "1.IH" [OF True] "1.prems" by simp
    also have "\<dots> = (if index \<le> i \<and> i < next_boundary index then 0 else pmp_n_cfg ! i)"
      using step "1.prems" by (cases "i = index") auto
    finally show ?thesis .
  next
    case False
    then have "next_boundary index = index"
      by (simp add: next_boundary_aligned)
    with False show ?thesis
      by (subst clear_trailing.simps) auto
  qed
qed

lemma next_boundary_le_length:
  assumes "n mod PMPCFG_STRIDE = 0" "index \<le> n"
  shows "next_boundary index \<le> n"
proof -
  from assms(1) obtain q where n: "n = 4 * q"
    by (auto simp: PMPCFG_STRIDE_def)
  with assms(2) have "(index + 3) div 4 \<le> q"
    by simp
  then show ?thesis
    by (simp add: next_boundary_def PMPCFG_STRIDE_def n)
qed


text \<open>
  C7, as stated, fails in a build with assertions when the array size passed exceeds
  the slot count: the range \<open>0 < 1 \<le> 16\<close> satisfies the precondition, yet the assertion
  (which also checks \<open>index_limit \<le> CONFIG_PMP_SLOTS\<close>) aborts before the hardware write.
\<close>

theorem write_pmp_entries_precondition_counterexample:
  "(0::nat) < 1 \<and> (1::nat) \<le> 16
   \<and> write_pmp_entries \<lparr>CONFIG_ASSERT = True, CONFIG_PMP_STACK_GUARD = False, CONFIG_PMP_SLOTS = 8\<rparr>
        0 1 False [1, 2] [0x1f, 0x0b, 0, 0] 16 = ([], Inl Assertion_failed)"
  by (simp add: write_pmp_entries_def)

text \<open>
  C7, amended. Whenever \<open>start < end \<le> index_limit\<close> is violated, \<open>write_pmp_entries\<close>
  aborts (by the assertion when assertions are compiled in, by \<open>k_panic\<close> when they are
  compiled out) and the hardware write primitive is not called. Whenever it holds, the
  primitive is called, exactly once and with the range given, unless assertions are
  compiled in and \<open>index_limit\<close> exceeds \<open>CONFIG_PMP_SLOTS\<close>: then the assertion aborts
  and the primitive is not called.
\<close>

theorem write_pmp_entries_precondition:
  "(\<not> (start < end \<and> end \<le> index_limit) \<longrightarrow>
      write_pmp_entries conf start end clear pmp_addr pmp_n_cfg index_limit =
        ([], Inl (if CONFIG_ASSERT conf then Assertion_failed else Kernel_panic))) \<and>
   (start < end \<and> end \<le> index_limit \<longrightarrow>
      (if CONFIG_ASSERT conf \<and> CONFIG_PMP_SLOTS conf < index_limit
       then write_pmp_entries conf start end clear pmp_addr pmp_n_cfg index_limit =
              ([], Inl Assertion_failed)
       else \<exists>pmp_n_cfg'.
              write_pmp_entries conf start end clear pmp_addr pmp_n_cfg index_limit =
                ([Z_riscv_write_pmp_entries start end clear pmp_addr pmp_n_cfg'],
                 Inr pmp_n_cfg')))"
  by (auto simp: write_pmp_entries_def Let_def)

theorem write_pmp_entries_precondition_witness:
  "\<not> ((3::nat) < 3 \<and> (3::nat) \<le> 8)
   \<and> write_pmp_entries \<lparr>CONFIG_ASSERT = False, CONFIG_PMP_STACK_GUARD = False, CONFIG_PMP_SLOTS = 8\<rparr>
        3 3 True [1, 2, 3, 4, 5, 6, 7, 8] [0x1f, 0x0b, 0, 0, 0, 0, 0, 0] 8 = ([], Inl Kernel_panic)
   \<and> (1::nat) < 3 \<and> (3::nat) \<le> 8
   \<and> write_pmp_entries \<lparr>CONFIG_ASSERT = True, CONFIG_PMP_STACK_GUARD = False, CONFIG_PMP_SLOTS = 8\<rparr>
        1 3 False [1, 2, 3, 4, 5, 6, 7, 8] [0x1f, 0x0b, 0, 0, 0, 0, 0, 0] 8 =
        ([Z_riscv_write_pmp_entries 1 3 False [1, 2, 3, 4, 5, 6, 7, 8] [0x1f, 0x0b, 0, 0, 0, 0, 0, 0]],
         Inr [0x1f, 0x0b, 0, 0, 0, 0, 0, 0])"
proof -
  define conf0 where
    "conf0 = \<lparr>CONFIG_ASSERT = False, CONFIG_PMP_STACK_GUARD = False, CONFIG_PMP_SLOTS = 8\<rparr>"
  define conf1 where
    "conf1 = \<lparr>CONFIG_ASSERT = True, CONFIG_PMP_STACK_GUARD = False, CONFIG_PMP_SLOTS = 8\<rparr>"
  have bad: "\<not> ((3::nat) < 3 \<and> (3::nat) \<le> 8)"
    by simp
  have good: "(1::nat) < 3 \<and> (3::nat) \<le> 8"
    by simp
  have "write_pmp_entries conf0
        3 3 True [1, 2, 3, 4, 5, 6, 7, 8] [0x1f, 0x0b, 0, 0, 0, 0, 0, 0] 8 = ([], Inl Kernel_panic)"
    using write_pmp_entries_precondition
      [of 3 3 8 conf0 True "[1, 2, 3, 4, 5, 6, 7, 8]" "[0x1f, 0x0b, 0, 0, 0, 0, 0, 0]"] bad
    by (simp add: conf0_def)
  moreover
  have "\<not> (CONFIG_ASSERT conf1 \<and> CONFIG_PMP_SLOTS conf1 < 8)"
    by (simp add: conf1_def)
  with write_pmp_entries_precondition
      [of 1 3 8 conf1 False "[1, 2, 3, 4, 5, 6, 7, 8]" "[0x1f, 0x0b, 0, 0, 0, 0, 0, 0]"] good
  obtain c where
    "write_pmp_entries conf1
        1 3 False [1, 2, 3, 4, 5, 6, 7, 8] [0x1f, 0x0b, 0, 0, 0, 0, 0, 0] 8 =
        ([Z_riscv_write_pmp_entries 1 3 False [1, 2, 3, 4, 5, 6, 7, 8] c], Inr c)"
    by auto
  then have
    "write_pmp_entries conf1
        1 3 False [1, 2, 3, 4, 5, 6, 7, 8] [0x1f, 0x0b, 0, 0, 0, 0, 0, 0] 8 =
        ([Z_riscv_write_pmp_entries 1 3 False [1, 2, 3, 4, 5, 6, 7, 8] [0x1f, 0x0b, 0, 0, 0, 0, 0, 0]],
         Inr [0x1f, 0x0b, 0, 0, 0, 0, 0, 0])"
    by (simp add: write_pmp_entries_def Let_def conf1_def)
  ultimately show ?thesis
    using bad good unfolding conf0_def conf1_def by (intro conjI) simp_all
qed

text \<open>
  C8. With a valid range \<open>start < end \<le> index_limit\<close>, either the call aborts on its
  assertion (assertions compiled in and \<open>index_limit\<close> beyond the slot count) before anything
  is modified or written, or: with \<open>clear_trailing\<close> set, the arrays handed to the
  hardware write primitive are the address array as it was and the config bytes with every
  index from \<open>end\<close> up to the next register-word boundary zeroed and every other byte
  (all those below \<open>end\<close> in particular) unchanged; with \<open>clear_trailing\<close> unset both
  arrays are handed over unchanged. When the config array consists of whole registers and
  holds \<open>end\<close> entries, the zeroed indices lie inside it.
\<close>

theorem write_pmp_entries_trailing_clear:
  assumes valid: "start < end" "end \<le> index_limit"
  shows "(if CONFIG_ASSERT conf \<and> CONFIG_PMP_SLOTS conf < index_limit
          then write_pmp_entries conf start end clear pmp_addr pmp_n_cfg index_limit =
                 ([], Inl Assertion_failed)
          else \<exists>pmp_n_cfg'.
                 write_pmp_entries conf start end clear pmp_addr pmp_n_cfg index_limit =
                   ([Z_riscv_write_pmp_entries start end clear pmp_addr pmp_n_cfg'],
                    Inr pmp_n_cfg') \<and>
                 length pmp_n_cfg' = length pmp_n_cfg \<and>
                 (\<forall>i < length pmp_n_cfg.
                    pmp_n_cfg' ! i =
                      (if clear \<and> end \<le> i \<and> i < next_boundary end then 0
                       else pmp_n_cfg ! i))) \<and>
         (length pmp_n_cfg mod PMPCFG_STRIDE = 0 \<and> end \<le> length pmp_n_cfg \<longrightarrow>
            next_boundary end \<le> length pmp_n_cfg)"
proof (intro conjI impI)
  show "if CONFIG_ASSERT conf \<and> CONFIG_PMP_SLOTS conf < index_limit
          then write_pmp_entries conf start end clear pmp_addr pmp_n_cfg index_limit =
                 ([], Inl Assertion_failed)
          else \<exists>pmp_n_cfg'.
                 write_pmp_entries conf start end clear pmp_addr pmp_n_cfg index_limit =
                   ([Z_riscv_write_pmp_entries start end clear pmp_addr pmp_n_cfg'],
                    Inr pmp_n_cfg') \<and>
                 length pmp_n_cfg' = length pmp_n_cfg \<and>
                 (\<forall>i < length pmp_n_cfg.
                    pmp_n_cfg' ! i =
                      (if clear \<and> end \<le> i \<and> i < next_boundary end then 0
                       else pmp_n_cfg ! i))"
  proof (cases "CONFIG_ASSERT conf \<and> CONFIG_PMP_SLOTS conf < index_limit")
    case True
    then show ?thesis
      by (auto simp: write_pmp_entries_def)
  next
    case False
    define c where "c = (if clear then clear_trailing end pmp_n_cfg else pmp_n_cfg)"
    have "write_pmp_entries conf start end clear pmp_addr pmp_n_cfg index_limit =
          ([Z_riscv_write_pmp_entries start end clear pmp_addr c], Inr c)"
      using valid False by (auto simp: write_pmp_entries_def Let_def c_def)
    moreover have "length c = length pmp_n_cfg"
      by (simp add: c_def length_clear_trailing)
    moreover have "\<forall>i < length pmp_n_cfg.
        c ! i = (if clear \<and> end \<le> i \<and> i < next_boundary end then 0 else pmp_n_cfg ! i)"
      by (simp add: c_def nth_clear_trailing)
    ultimately show ?thesis
      using False by auto
  qed
  show "next_boundary end \<le> length pmp_n_cfg"
    if "length pmp_n_cfg mod PMPCFG_STRIDE = 0 \<and> end \<le> length pmp_n_cfg"
    using that by (intro next_boundary_le_length) simp_all
qed

theorem write_pmp_entries_trailing_clear_witness:
  "(1::nat) < 2 \<and> (2::nat) \<le> 8
   \<and> write_pmp_entries \<lparr>CONFIG_ASSERT = True, CONFIG_PMP_STACK_GUARD = False, CONFIG_PMP_SLOTS = 8\<rparr>
        1 2 True [1, 2, 3, 4, 5, 6, 7, 8] [0x1f, 0x0b, 0x0f, 0x09, 0x0a, 0, 0, 0] 8 =
        ([Z_riscv_write_pmp_entries 1 2 True [1, 2, 3, 4, 5, 6, 7, 8]
            [0x1f, 0x0b, 0, 0, 0x0a, 0, 0, 0]],
         Inr [0x1f, 0x0b, 0, 0, 0x0a, 0, 0, 0])
   \<and> next_boundary 2 = 4
   \<and> next_boundary 2 \<le> length [0x1f, 0x0b, 0x0f, 0x09, 0x0a, 0, 0, 0 :: uint8_t]
   \<and> write_pmp_entries \<lparr>CONFIG_ASSERT = True, CONFIG_PMP_STACK_GUARD = False, CONFIG_PMP_SLOTS = 8\<rparr>
        1 2 False [1, 2, 3, 4, 5, 6, 7, 8] [0x1f, 0x0b, 0x0f, 0x09, 0x0a, 0, 0, 0] 8 =
        ([Z_riscv_write_pmp_entries 1 2 False [1, 2, 3, 4, 5, 6, 7, 8]
            [0x1f, 0x0b, 0x0f, 0x09, 0x0a, 0, 0, 0]],
         Inr [0x1f, 0x0b, 0x0f, 0x09, 0x0a, 0, 0, 0])"
proof -
  define conf where
    "conf = \<lparr>CONFIG_ASSERT = True, CONFIG_PMP_STACK_GUARD = False, CONFIG_PMP_SLOTS = 8\<rparr>"
  define cfg :: "uint8_t list" where "cfg = [0x1f, 0x0b, 0x0f, 0x09, 0x0a, 0, 0, 0]"
  have a: "(1::nat) < 2" "(2::nat) \<le> 8"
    by simp_all
  have ok: "\<not> (CONFIG_ASSERT conf \<and> CONFIG_PMP_SLOTS conf < 8)"
    by (simp add: conf_def)
  have nb: "next_boundary 2 = 4"
    by (simp add: next_boundary_def PMPCFG_STRIDE_def)
  have whole: "length cfg mod PMPCFG_STRIDE = 0 \<and> 2 \<le> length cfg"
    by (simp add: cfg_def PMPCFG_STRIDE_def)
  note t = write_pmp_entries_trailing_clear [OF a, of conf True "[1, 2, 3, 4, 5, 6, 7, 8]" cfg]
  from t ok obtain c where
    w: "write_pmp_entries conf 1 2 True [1, 2, 3, 4, 5, 6, 7, 8] cfg 8 =
          ([Z_riscv_write_pmp_entries 1 2 True [1, 2, 3, 4, 5, 6, 7, 8] c], Inr c)"
    and l: "length c = length cfg"
    and n: "\<forall>i < length cfg. c ! i = (if True \<and> 2 \<le> i \<and> i < next_boundary 2 then 0 else cfg ! i)"
    by auto
  have "c = map ((!) c) [0..<length c]"
    by (simp add: map_nth)
  also have "\<dots> = map (\<lambda>i. if 2 \<le> i \<and> i < 4 then 0 else cfg ! i) [0..<length cfg]"
    using l n by (simp add: nb)
  also have "\<dots> = [0x1f, 0x0b, 0, 0, 0x0a, 0, 0, 0]"
    by (simp add: cfg_def upt_rec_numeral)
  finally have "c = [0x1f, 0x0b, 0, 0, 0x0a, 0, 0, 0]" .
  with w have w': "write_pmp_entries conf 1 2 True [1, 2, 3, 4, 5, 6, 7, 8] cfg 8 =
          ([Z_riscv_write_pmp_entries 1 2 True [1, 2, 3, 4, 5, 6, 7, 8]
              [0x1f, 0x0b, 0, 0, 0x0a, 0, 0, 0]],
           Inr [0x1f, 0x0b, 0, 0, 0x0a, 0, 0, 0])"
    by simp
  from t whole have b: "next_boundary 2 \<le> length cfg"
    by blast
  note t2 = write_pmp_entries_trailing_clear [OF a, of conf False "[1, 2, 3, 4, 5, 6, 7, 8]" cfg]
  from t2 ok obtain c2 where
    w2: "write_pmp_entries conf 1 2 False [1, 2, 3, 4, 5, 6, 7, 8] cfg 8 =
          ([Z_riscv_write_pmp_entries 1 2 False [1, 2, 3, 4, 5, 6, 7, 8] c2], Inr c2)"
    and l2: "length c2 = length cfg"
    and n2: "\<forall>i < length cfg. c2 ! i =
               (if False \<and> 2 \<le> i \<and> i < next_boundary 2 then 0 else cfg ! i)"
    by auto
  from l2 n2 have "c2 = cfg"
    by (simp add: list_eq_iff_nth_eq)
  with w2 have f: "write_pmp_entries conf 1 2 False [1, 2, 3, 4, 5, 6, 7, 8] cfg 8 =
          ([Z_riscv_write_pmp_entries 1 2 False [1, 2, 3, 4, 5, 6, 7, 8] cfg], Inr cfg)"
    by simp
  from a w' nb b f show ?thesis
    unfolding conf_def cfg_def by (intro conjI)
qed

subsection \<open>Claims about the generation counter\<close>

lemma write_pmp_entries_no_lock:
  "resync_calls (fst (write_pmp_entries conf start end clear pmp_addr pmp_n_cfg index_limit)) = 0"
  by (simp add: write_pmp_entries_def resync_calls_def Let_def)

lemma resync_pmp_domain_one_lock:
  "resync_calls (fst (resync_pmp_domain conf thread domain)) = 1"
  by (simp add: resync_pmp_domain_def resync_calls_def split: sum.splits prod.splits)

lemma resync_pmp_domain_synced:
  "snd (resync_pmp_domain conf thread domain) = Inr thread' \<Longrightarrow>
   u_mode_pmp_update_nr thread' = domain_pmp_update_nr domain"
  by (auto simp: resync_pmp_domain_def split: sum.splits prod.splits)

lemma resync_calls_append: "resync_calls (xs @ ys) = resync_calls xs + resync_calls ys"
  by (induction xs) (simp_all add: resync_calls_def)

lemma resync_calls_simps:
  "resync_calls [] = 0"
  "resync_calls (Csr_clear_mstatus_MPRV # evs) = resync_calls evs"
  "resync_calls (K_spin_unlock # evs) = resync_calls evs"
  "resync_calls (Z_riscv_write_pmp_entries s e c a b # evs) = resync_calls evs"
  "resync_calls (K_spin_lock # evs) = Suc (resync_calls evs)"
  by (simp_all add: resync_calls_def)

text \<open>The part of a switch after the staleness test.\<close>

lemma enable_unfold:
  assumes "u_mode_pmp_end_index thread \<noteq> 0"
  shows "z_riscv_pmp_usermode_enable conf g thread domain =
    (let r = (if u_mode_pmp_update_nr thread \<noteq> domain_pmp_update_nr domain
              then resync_pmp_domain conf thread domain else ([], Inr thread))
     in case snd r of
          Inl f \<Rightarrow> (fst r, Inl f)
        | Inr thread1 \<Rightarrow>
            (let w = write_pmp_entries conf (global_pmp_end_index g)
                       (u_mode_pmp_end_index thread1) True
                       (u_mode_pmpaddr_regs thread1) (u_mode_pmpcfg_regs thread1)
                       (length (u_mode_pmpaddr_regs thread1))
             in (fst r @ (if CONFIG_PMP_STACK_GUARD conf then [Csr_clear_mstatus_MPRV] else [])
                   @ fst w,
                 case snd w of Inl f \<Rightarrow> Inl f
                 | Inr pmp_n_cfg' \<Rightarrow> Inr (thread1\<lparr>u_mode_pmpcfg_regs := pmp_n_cfg'\<rparr>))))"
  using assms
  by (simp add: z_riscv_pmp_usermode_enable_def Let_def split: prod.splits sum.splits)

lemma enable_resync_calls:
  "resync_calls (fst (z_riscv_pmp_usermode_enable conf g thread domain)) =
     (if u_mode_pmp_end_index thread \<noteq> 0 \<and>
         u_mode_pmp_update_nr thread \<noteq> domain_pmp_update_nr domain
      then 1 else 0)"
proof (cases "u_mode_pmp_end_index thread = 0")
  case True
  then show ?thesis
    by (simp add: z_riscv_pmp_usermode_enable_def resync_calls_def)
next
  case False
  have csr: "resync_calls (if CONFIG_PMP_STACK_GUARD conf then [Csr_clear_mstatus_MPRV] else []) = 0"
    by (simp add: resync_calls_def)
  show ?thesis
  proof (cases "u_mode_pmp_update_nr thread \<noteq> domain_pmp_update_nr domain")
    case True
    with False show ?thesis
      using resync_pmp_domain_one_lock [of conf thread domain]
      by (simp add: enable_unfold Let_def resync_calls_append write_pmp_entries_no_lock
          resync_calls_simps split: sum.splits)
  next
    case stale: False
    with False show ?thesis
      by (simp add: enable_unfold Let_def resync_calls_append write_pmp_entries_no_lock
          resync_calls_simps split: sum.splits)
  qed
qed

lemma enable_result:
  assumes "snd (z_riscv_pmp_usermode_enable conf g thread domain) = Inr thread'"
    and "u_mode_pmp_end_index thread \<noteq> 0"
  shows "u_mode_pmp_update_nr thread' = domain_pmp_update_nr domain \<and>
         u_mode_pmp_end_index thread' \<noteq> 0"
proof -
  define r where "r = (if u_mode_pmp_update_nr thread \<noteq> domain_pmp_update_nr domain
              then resync_pmp_domain conf thread domain else ([], Inr thread))"
  from assms obtain thread1 where t1: "snd r = Inr thread1"
    by (auto simp: enable_unfold Let_def r_def split: sum.splits if_splits)
  define w where "w = write_pmp_entries conf (global_pmp_end_index g)
                       (u_mode_pmp_end_index thread1) True
                       (u_mode_pmpaddr_regs thread1) (u_mode_pmpcfg_regs thread1)
                       (length (u_mode_pmpaddr_regs thread1))"
  from assms t1 obtain c where w: "snd w = Inr c"
    and t': "thread' = thread1\<lparr>u_mode_pmpcfg_regs := c\<rparr>"
    by (auto simp: enable_unfold Let_def r_def w_def split: sum.splits if_splits)
  have nr: "u_mode_pmp_update_nr thread1 = domain_pmp_update_nr domain"
    using t1 resync_pmp_domain_synced [of conf thread domain thread1]
    by (auto simp: r_def split: if_splits)
  from w have "global_pmp_end_index g < u_mode_pmp_end_index thread1"
    by (auto simp: w_def write_pmp_entries_def Let_def split: if_splits)
  with nr t' show ?thesis
    by simp
qed

lemma enable_keeps_synced:
  assumes "snd (z_riscv_pmp_usermode_enable conf g thread domain) = Inr thread'"
    and "u_mode_pmp_update_nr thread = domain_pmp_update_nr domain"
  shows "u_mode_pmp_update_nr thread' = domain_pmp_update_nr domain"
proof (cases "u_mode_pmp_end_index thread = 0")
  case True
  with assms show ?thesis
    by (simp add: z_riscv_pmp_usermode_enable_def)
next
  case False
  with assms(1) show ?thesis
    using enable_result by blast
qed

lemma repeat_enable_synced:
  "u_mode_pmp_update_nr thread = domain_pmp_update_nr domain \<Longrightarrow>
   resync_calls (fst (repeat_enable conf g domain n thread)) = 0"
proof (induction n arbitrary: thread)
  case 0
  then show ?case
    by (simp add: resync_calls_simps)
next
  case (Suc n)
  obtain evs r where e: "z_riscv_pmp_usermode_enable conf g thread domain = (evs, r)"
    by (cases "z_riscv_pmp_usermode_enable conf g thread domain")
  have evs: "resync_calls evs = 0"
    using enable_resync_calls [of conf g thread domain] Suc.prems e by simp
  show ?case
  proof (cases r)
    case (Inl f)
    with e evs show ?thesis
      by simp
  next
    case (Inr thread')
    with e Suc.prems have "u_mode_pmp_update_nr thread' = domain_pmp_update_nr domain"
      using enable_keeps_synced [of conf g thread domain thread'] by simp
    then have "resync_calls (fst (repeat_enable conf g domain n thread')) = 0"
      by (rule Suc.IH)
    with e evs Inr show ?thesis
      by (simp add: resync_calls_append)
  qed
qed

lemma repeat_enable_stale:
  assumes "u_mode_pmp_end_index thread \<noteq> 0"
    and "u_mode_pmp_update_nr thread \<noteq> domain_pmp_update_nr domain"
  shows "resync_calls (fst (repeat_enable conf g domain (Suc n) thread)) = 1"
proof -
  obtain evs r where e: "z_riscv_pmp_usermode_enable conf g thread domain = (evs, r)"
    by (cases "z_riscv_pmp_usermode_enable conf g thread domain")
  have evs: "resync_calls evs = 1"
    using enable_resync_calls [of conf g thread domain] assms e by simp
  show ?thesis
  proof (cases r)
    case (Inl f)
    with e evs show ?thesis
      by simp
  next
    case (Inr thread')
    with e assms(1) have "u_mode_pmp_update_nr thread' = domain_pmp_update_nr domain"
      using enable_result [of conf g thread domain thread'] by simp
    then have "resync_calls (fst (repeat_enable conf g domain n thread')) = 0"
      by (rule repeat_enable_synced)
    with e evs Inr show ?thesis
      by (simp add: resync_calls_append)
  qed
qed


lemma sample_resync:
  "resync_pmp_domain sample_conf sample_prepared sample_domain =
     ([K_spin_lock, K_spin_unlock], Inr sample_synced)"
  by (simp add: resync_pmp_domain_def resync_loop.simps sample_conf_def
      sample_domain_def sample_prepared_def sample_synced_def
      set_pmp_entry_def PMP_ADDR_def PMP_ADDR_NAPOT_def NAPOT_RANGE_def pmp_consts)

lemma sample_enable:
  "z_riscv_pmp_usermode_enable sample_conf sample_globals sample_prepared sample_domain =
     ([K_spin_lock, K_spin_unlock, Csr_clear_mstatus_MPRV,
       Z_riscv_write_pmp_entries 1 4 True [0x20000FFF, 0xDFF, 0x5FF, 0x8FF, 0, 0, 0, 0]
         [0x9D, 0x1B, 0x1B, 0x19, 0, 0, 0, 0]],
      Inr sample_synced)"
proof -
  have stale: "u_mode_pmp_update_nr sample_prepared \<noteq> domain_pmp_update_nr sample_domain"
    "u_mode_pmp_end_index sample_prepared \<noteq> 0"
    by (simp_all add: sample_prepared_def sample_domain_def)
  have ct: "clear_trailing 4 [0x9D, 0x1B, 0x1B, 0x19, 0, 0, 0, 0] =
              [0x9D, 0x1B, 0x1B, 0x19, 0, 0, 0, 0]"
    by (simp add: clear_trailing.simps PMPCFG_STRIDE_def)
  show ?thesis
    using stale
    by (simp add: z_riscv_pmp_usermode_enable_def sample_resync)
       (simp add: sample_synced_def sample_globals_def sample_conf_def write_pmp_entries_def
          Let_def ct)
qed

text \<open>
  C6. For a thread whose unprivileged store is prepared (end index nonzero), one call of
  \<open>z_riscv_pmp_usermode_enable\<close> calls \<open>resync_pmp_domain\<close> exactly once if the thread's
  last-synced generation differs from the domain's, and not at all otherwise. A resync that
  returns, and a switch that returns, leave the two generations equal (and the store
  prepared). From a synced thread, any number of further switches with the domain left
  alone perform no resync; after the domain's generation was bumped by adding or removing a
  partition, the following switches perform exactly one resync in all.
\<close>

theorem resync_iff_stale:
  assumes prepared: "u_mode_pmp_end_index thread \<noteq> 0"
  shows "resync_calls (fst (z_riscv_pmp_usermode_enable conf g thread domain)) =
           (if u_mode_pmp_update_nr thread \<noteq> domain_pmp_update_nr domain then 1 else 0) \<and>
         (snd (resync_pmp_domain conf thread domain) = Inr thread1 \<longrightarrow>
            u_mode_pmp_update_nr thread1 = domain_pmp_update_nr domain) \<and>
         (snd (z_riscv_pmp_usermode_enable conf g thread domain) = Inr thread' \<longrightarrow>
            u_mode_pmp_update_nr thread' = domain_pmp_update_nr domain \<and>
            u_mode_pmp_end_index thread' \<noteq> 0 \<and>
            resync_calls (fst (repeat_enable conf g domain n thread')) = 0 \<and>
            resync_calls (fst (repeat_enable conf g
               (arch_mem_domain_partition_add domain) (Suc n) thread')) = 1 \<and>
            resync_calls (fst (repeat_enable conf g
               (arch_mem_domain_partition_remove domain) (Suc n) thread')) = 1)"
proof (intro conjI impI)
  show "resync_calls (fst (z_riscv_pmp_usermode_enable conf g thread domain)) =
           (if u_mode_pmp_update_nr thread \<noteq> domain_pmp_update_nr domain then 1 else 0)"
    using prepared by (simp add: enable_resync_calls)
  show "u_mode_pmp_update_nr thread1 = domain_pmp_update_nr domain"
    if "snd (resync_pmp_domain conf thread domain) = Inr thread1"
    using that by (rule resync_pmp_domain_synced)
  assume ret: "snd (z_riscv_pmp_usermode_enable conf g thread domain) = Inr thread'"
  from enable_result [OF ret prepared]
  show synced: "u_mode_pmp_update_nr thread' = domain_pmp_update_nr domain"
    and prep: "u_mode_pmp_end_index thread' \<noteq> 0"
    by simp_all
  from synced show "resync_calls (fst (repeat_enable conf g domain n thread')) = 0"
    by (rule repeat_enable_synced)
  from synced
  have "u_mode_pmp_update_nr thread' \<noteq>
          domain_pmp_update_nr (arch_mem_domain_partition_add domain)"
    by (simp add: arch_mem_domain_partition_add_def)
  with prep show "resync_calls (fst (repeat_enable conf g
               (arch_mem_domain_partition_add domain) (Suc n) thread')) = 1"
    by (rule repeat_enable_stale)
  from synced
  have "u_mode_pmp_update_nr thread' \<noteq>
          domain_pmp_update_nr (arch_mem_domain_partition_remove domain)"
    by (simp add: arch_mem_domain_partition_remove_def)
  with prep show "resync_calls (fst (repeat_enable conf g
               (arch_mem_domain_partition_remove domain) (Suc n) thread')) = 1"
    by (rule repeat_enable_stale)
qed

theorem resync_iff_stale_witness:
  "u_mode_pmp_end_index sample_prepared \<noteq> 0
   \<and> u_mode_pmp_update_nr sample_prepared \<noteq> domain_pmp_update_nr sample_domain
   \<and> resync_calls (fst (z_riscv_pmp_usermode_enable sample_conf sample_globals
         sample_prepared sample_domain)) = 1
   \<and> snd (resync_pmp_domain sample_conf sample_prepared sample_domain) = Inr sample_synced
   \<and> snd (z_riscv_pmp_usermode_enable sample_conf sample_globals
         sample_prepared sample_domain) = Inr sample_synced
   \<and> u_mode_pmp_update_nr sample_synced = domain_pmp_update_nr sample_domain
   \<and> u_mode_pmp_end_index sample_synced \<noteq> 0
   \<and> resync_calls (fst (repeat_enable sample_conf sample_globals sample_domain 3
         sample_synced)) = 0
   \<and> resync_calls (fst (repeat_enable sample_conf sample_globals
         (arch_mem_domain_partition_add sample_domain) (Suc 2) sample_synced)) = 1
   \<and> resync_calls (fst (repeat_enable sample_conf sample_globals
         (arch_mem_domain_partition_remove sample_domain) (Suc 2) sample_synced)) = 1"
proof -
  have p: "u_mode_pmp_end_index sample_prepared \<noteq> 0"
    by (simp add: sample_prepared_def)
  have stale: "u_mode_pmp_update_nr sample_prepared \<noteq> domain_pmp_update_nr sample_domain"
    by (simp add: sample_prepared_def sample_domain_def)
  have r: "snd (resync_pmp_domain sample_conf sample_prepared sample_domain) = Inr sample_synced"
    by (simp add: sample_resync)
  have e: "snd (z_riscv_pmp_usermode_enable sample_conf sample_globals
         sample_prepared sample_domain) = Inr sample_synced"
    by (simp add: sample_enable)
  note t = resync_iff_stale [OF p, of sample_conf sample_globals sample_domain sample_synced
      sample_synced]
  from t stale have one: "resync_calls (fst (z_riscv_pmp_usermode_enable sample_conf
      sample_globals sample_prepared sample_domain)) = 1"
    by simp
  from t r e have rest:
    "u_mode_pmp_update_nr sample_synced = domain_pmp_update_nr sample_domain"
    "u_mode_pmp_end_index sample_synced \<noteq> 0"
    "resync_calls (fst (repeat_enable sample_conf sample_globals sample_domain 3
         sample_synced)) = 0"
    "resync_calls (fst (repeat_enable sample_conf sample_globals
         (arch_mem_domain_partition_add sample_domain) (Suc 2) sample_synced)) = 1"
    "resync_calls (fst (repeat_enable sample_conf sample_globals
         (arch_mem_domain_partition_remove sample_domain) (Suc 2) sample_synced)) = 1"
    by blast+
  from p stale one r e rest show ?thesis
    by (intro conjI)
qed




subsection \<open>Claims about the partition loops\<close>

lemma IS_WITHIN_iff: "IS_WITHIN a n s m \<longleftrightarrow> region_inside a n s m"
proof
  assume w: "IS_WITHIN a n s m"
  then have le: "s \<le> a" "n \<le> m" "a - s \<le> m - n"
    by (simp_all add: IS_WITHIN_def)
  then have "unat (a - s) = unat a - unat s" "unat (m - n) = unat m - unat n"
    by (simp_all add: unat_sub)
  with le show "region_inside a n s m"
    by (simp add: region_inside_def word_le_nat_alt)
next
  assume r: "region_inside a n s m"
  then have le: "s \<le> a" "n \<le> m"
    by (simp_all add: region_inside_def word_le_nat_alt)
  then have "unat (a - s) = unat a - unat s" "unat (m - n) = unat m - unat n"
    by (simp_all add: unat_sub)
  moreover from r have "unat a - unat s \<le> unat m - unat n"
    unfolding region_inside_def by arith
  ultimately have "a - s \<le> m - n"
    by (simp add: word_le_nat_alt)
  with le show "IS_WITHIN a n s m"
    by (simp add: IS_WITHIN_def)
qed

text \<open>
  The non-empty partitions still ahead of a loop that stands at \<open>p_idx\<close>: each loop is one
  front-to-back pass over them, cut off after \<open>remaining\<close> of them, or a read past the
  array when they run out first.
\<close>

lemma ahead_step:
  assumes "p_idx < length ps"
  shows "filter P (drop p_idx ps) =
           (if P (ps ! p_idx) then ps ! p_idx # filter P (drop (Suc p_idx) ps)
            else filter P (drop (Suc p_idx) ps))"
  using assms by (simp flip: Cons_nth_drop_Suc)

lemma resync_loop_parts:
  "resync_loop asserts domain p_idx remaining index pmp_addr pmp_n_cfg =
     (let ahead = filter (\<lambda>part. part_size part \<noteq> 0) (drop p_idx (partitions domain)) in
      if length ahead < remaining then
        (case resync_parts asserts ahead index pmp_addr pmp_n_cfg of
           Inl f \<Rightarrow> Inl f
         | Inr r \<Rightarrow> Inl Out_of_bounds_read)
      else resync_parts asserts (take remaining ahead) index pmp_addr pmp_n_cfg)"
proof (induction asserts domain p_idx remaining index pmp_addr pmp_n_cfg
    rule: resync_loop.induct)
  case (1 asserts domain p_idx remaining index pmp_addr pmp_n_cfg)
  let ?ne = "\<lambda>part. part_size part \<noteq> 0"
  show ?case
  proof (cases "remaining > 0")
    case False
    then show ?thesis
      by (subst resync_loop.simps) simp
  next
    case pos: True
    show ?thesis
    proof (cases "p_idx < length (partitions domain)")
      case False
      with pos show ?thesis
        by (subst resync_loop.simps) simp
    next
      case lt: True
      define part where "part = partitions domain ! p_idx"
      note step = ahead_step [OF lt, of ?ne, folded part_def]
      show ?thesis
      proof (cases "part_size part = 0")
        case z: True
        with "1.IH"(1) [OF pos _ part_def z] lt step pos show ?thesis
          by (subst resync_loop.simps) (simp add: part_def [symmetric])
      next
        case nz: False
        with step have f: "filter ?ne (drop p_idx (partitions domain)) =
            part # filter ?ne (drop (Suc p_idx) (partitions domain))"
          by simp
        from pos have tk: "take remaining (part # rest) = part # take (remaining - 1) rest"
          for rest by (cases remaining) simp_all
        from pos have ln: "Suc k < remaining \<longleftrightarrow> k < remaining - 1" for k
          by auto
        show ?thesis
        proof (cases "part_size part < 4")
          case small: True
          show ?thesis
          proof (cases asserts)
            case True
            with pos lt nz small show ?thesis
              by (subst resync_loop.simps) (simp add: f tk Let_def part_def [symmetric])
          next
            case False
            with "1.IH"(2) [OF pos _ part_def nz small False] lt
            show ?thesis
              using pos nz small
              by (subst resync_loop.simps) (simp add: f tk ln Let_def part_def [symmetric])
          qed
        next
          case big: False
          show ?thesis
          proof (cases "set_pmp_entry asserts index (part_pmp_attr part) (part_start part)
                      (part_size part) pmp_addr pmp_n_cfg (length pmp_addr)")
            case (Inl e)
            with pos lt nz big show ?thesis
              by (subst resync_loop.simps) (simp add: f tk Let_def part_def [symmetric])
          next
            case (Inr res)
            show ?thesis
            proof (cases "asserts \<and> \<not> fst res")
              case True
              with Inr pos lt nz big show ?thesis
                by (subst resync_loop.simps) (simp add: f tk Let_def part_def [symmetric])
            next
              case False
              with "1.IH"(3) [OF pos _ part_def nz big Inr False] lt
              show ?thesis
                using Inr pos nz big
                by (subst resync_loop.simps) (auto simp: f tk ln Let_def part_def [symmetric])
            qed
          qed
        qed
      qed
    qed
  qed
qed

lemma validate_loop_parts:
  "validate_loop domain a n write p_idx remaining =
     (let ahead = filter (\<lambda>part. part_size part \<noteq> 0) (drop p_idx (partitions domain)) in
      if length ahead < remaining \<and> (\<forall>part \<in> set ahead. \<not> holds_range a n part)
      then Inl Out_of_bounds_read
      else Inr (validate_parts (take remaining ahead) a n write))"
proof (induction domain a n "write" p_idx remaining rule: validate_loop.induct)
  case (1 domain a n wr p_idx remaining)
  let ?ne = "\<lambda>part. part_size part \<noteq> 0"
  show ?case
  proof (cases "remaining > 0")
    case False
    then show ?thesis
      by (subst validate_loop.simps) simp
  next
    case pos: True
    show ?thesis
    proof (cases "p_idx < length (partitions domain)")
      case False
      with pos show ?thesis
        by (subst validate_loop.simps) simp
    next
      case lt: True
      define part where "part = partitions domain ! p_idx"
      note step = ahead_step [OF lt, of ?ne, folded part_def]
      show ?thesis
      proof (cases "part_size part = 0")
        case z: True
        with "1.IH"(1) [OF pos _ part_def z] lt step pos show ?thesis
          by (subst validate_loop.simps) (simp add: part_def [symmetric])
      next
        case nz: False
        with step have f: "filter ?ne (drop p_idx (partitions domain)) =
            part # filter ?ne (drop (Suc p_idx) (partitions domain))"
          by simp
        from pos have tk: "take remaining (part # rest) = part # take (remaining - 1) rest"
          for rest by (cases remaining) simp_all
        from pos have ln: "Suc k < remaining \<longleftrightarrow> k < remaining - 1" for k
          by auto
        show ?thesis
        proof (cases "holds_range a n part")
          case True
          with pos lt nz show ?thesis
            by (subst validate_loop.simps)
              (simp add: f tk Let_def part_def [symmetric] IS_WITHIN_iff holds_range_def grants_def)
        next
          case False
          with "1.IH"(2) [OF pos _ part_def nz] lt pos nz show ?thesis
            by (subst validate_loop.simps)
              (auto simp: f tk ln Let_def part_def [symmetric] IS_WITHIN_iff holds_range_def)
        qed
      qed
    qed
  qed
qed

lemma set_pmp_entry_fault:
  "set_pmp_entry asserts index perm start sz pmp_addr pmp_n_cfg index_limit = Inl f \<Longrightarrow>
   asserts \<and> f = Assertion_failed"
  by (auto simp: set_pmp_entry_def Let_def split: if_splits)

lemma resync_parts_fault:
  "resync_parts asserts parts index pmp_addr pmp_n_cfg = Inl f \<Longrightarrow>
   asserts \<and> f = Assertion_failed"
proof (induction parts arbitrary: index pmp_addr pmp_n_cfg)
  case Nil
  then show ?case by simp
next
  case (Cons part parts)
  then show ?case
    by (auto split: if_splits sum.splits dest: set_pmp_entry_fault)
qed

lemma validate_parts_find:
  "validate_parts parts a n write =
     (if \<exists>part. find (holds_range a n) parts = Some part \<and> grants part write then 0 else - 1)"
  by (induction parts) simp_all

lemma first_is_only:
  assumes "\<forall>i < length parts. \<forall>j < length parts.
             P (parts ! i) \<and> P (parts ! j) \<longrightarrow> i = j"
  shows "(\<exists>part. find P parts = Some part \<and> G part) \<longleftrightarrow>
         (\<exists>!i. i < length parts \<and> P (parts ! i) \<and> G (parts ! i))"
proof
  assume "\<exists>part. find P parts = Some part \<and> G part"
  then obtain part where fp: "find P parts = Some part" and g: "G part"
    by blast
  from fp obtain i where i: "i < length parts" "P (parts ! i)" "part = parts ! i"
    by (auto simp: find_Some_iff)
  with g assms show "\<exists>!i. i < length parts \<and> P (parts ! i) \<and> G (parts ! i)"
    by blast
next
  assume "\<exists>!i. i < length parts \<and> P (parts ! i) \<and> G (parts ! i)"
  then obtain i where i: "i < length parts" "P (parts ! i)" "G (parts ! i)"
    by blast
  then have "find P parts \<noteq> None"
    by (metis find_None_iff nth_mem)
  then obtain part where fp: "find P parts = Some part"
    by blast
  then obtain j where j: "j < length parts" "P (parts ! j)" "part = parts ! j"
    by (auto simp: find_Some_iff)
  with i assms have "j = i"
    by blast
  with fp j i show "\<exists>part. find P parts = Some part \<and> G part"
    by blast
qed

lemma inside_numeral:
  "region_inside (numeral a) (numeral n) (numeral s) (numeral m) \<longleftrightarrow>
     unat (numeral s :: ulong_t) \<le> unat (numeral a :: ulong_t) \<and>
     unat (numeral a :: ulong_t) + unat (numeral n :: ulong_t)
       \<le> unat (numeral s :: ulong_t) + unat (numeral m :: ulong_t)"
  by (simp add: region_inside_def)

text \<open>
  C10 (amended). Both loops count down \<open>remaining_partitions\<close> on each non-empty partition
  and never compare \<open>p_idx\<close> with the array's length. If the array holds at least
  \<open>num_partitions\<close> entries of nonzero size, both return having read only in-bounds indices,
  and what they do is one pass, in array order, over the first \<open>num_partitions\<close> non-empty
  partitions (the validator stopping at the first that contains the range). If it holds
  fewer, the synchronizer handles every non-empty partition and then reads past the array,
  unless an assertion stopped it first (never when assertions are compiled out); the
  validator reads past the array exactly when no non-empty partition contains the range.
\<close>

theorem partition_loops_bound:
  "resync_loop asserts domain 0 (num_partitions domain) index pmp_addr pmp_n_cfg =
     (if length (non_empty domain) < num_partitions domain then
        (case resync_parts asserts (non_empty domain) index pmp_addr pmp_n_cfg of
           Inl f \<Rightarrow> Inl f
         | Inr r \<Rightarrow> Inl Out_of_bounds_read)
      else resync_parts asserts (take (num_partitions domain) (non_empty domain))
             index pmp_addr pmp_n_cfg) \<and>
   (resync_loop asserts domain 0 (num_partitions domain) index pmp_addr pmp_n_cfg
      = Inl Out_of_bounds_read \<longrightarrow>
    length (non_empty domain) < num_partitions domain) \<and>
   (\<not> asserts \<and> length (non_empty domain) < num_partitions domain \<longrightarrow>
    resync_loop asserts domain 0 (num_partitions domain) index pmp_addr pmp_n_cfg
      = Inl Out_of_bounds_read) \<and>
   validate_loop domain a n write 0 (num_partitions domain) =
     (if length (non_empty domain) < num_partitions domain \<and>
         (\<forall>part \<in> set (non_empty domain). \<not> holds_range a n part)
      then Inl Out_of_bounds_read
      else Inr (validate_parts (take (num_partitions domain) (non_empty domain)) a n write))"
proof -
  let ?loop = "resync_loop asserts domain 0 (num_partitions domain) index pmp_addr pmp_n_cfg"
  have r: "?loop =
     (if length (non_empty domain) < num_partitions domain then
        (case resync_parts asserts (non_empty domain) index pmp_addr pmp_n_cfg of
           Inl f \<Rightarrow> Inl f
         | Inr r \<Rightarrow> Inl Out_of_bounds_read)
      else resync_parts asserts (take (num_partitions domain) (non_empty domain))
             index pmp_addr pmp_n_cfg)"
    by (simp add: resync_loop_parts [of asserts domain 0] non_empty_def Let_def)
  have nec: "length (non_empty domain) < num_partitions domain" if "?loop = Inl Out_of_bounds_read"
  proof (rule ccontr)
    assume "\<not> length (non_empty domain) < num_partitions domain"
    with r that have "resync_parts asserts (take (num_partitions domain) (non_empty domain))
             index pmp_addr pmp_n_cfg = Inl Out_of_bounds_read"
      by simp
    from resync_parts_fault [OF this] show False
      by simp
  qed
  have suf: "?loop = Inl Out_of_bounds_read"
    if "\<not> asserts" "length (non_empty domain) < num_partitions domain"
  proof (cases "resync_parts asserts (non_empty domain) index pmp_addr pmp_n_cfg")
    case (Inl f)
    from resync_parts_fault [OF this] that show ?thesis
      by simp
  next
    case (Inr res)
    with r that show ?thesis
      by simp
  qed
  have v: "validate_loop domain a n write 0 (num_partitions domain) =
     (if length (non_empty domain) < num_partitions domain \<and>
         (\<forall>part \<in> set (non_empty domain). \<not> holds_range a n part)
      then Inl Out_of_bounds_read
      else Inr (validate_parts (take (num_partitions domain) (non_empty domain)) a n write))"
    by (auto simp: validate_loop_parts [of domain a n _ 0] non_empty_def Let_def)
  from r nec suf v show ?thesis
    by blast
qed

theorem partition_loops_bound_witness:
  "\<not> length (non_empty sample_domain) < num_partitions sample_domain \<and>
   resync_loop False sample_domain 0 2 2 (u_mode_pmpaddr_regs sample_prepared)
       (u_mode_pmpcfg_regs sample_prepared) =
     Inr (4, [0x20000FFF, 0xDFF, 0x5FF, 0x8FF, 0, 0, 0, 0],
          [0x9D, 0x1B, 0x1B, 0x19, 0, 0, 0, 0]) \<and>
   validate_loop sample_domain 0x2400 0x400 True 0 2 = Inr (- 1) \<and>
   length (non_empty (sample_domain\<lparr>num_partitions := 3\<rparr>))
     < num_partitions (sample_domain\<lparr>num_partitions := 3\<rparr>) \<and>
   resync_loop False (sample_domain\<lparr>num_partitions := 3\<rparr>) 0 3 2
       (u_mode_pmpaddr_regs sample_prepared) (u_mode_pmpcfg_regs sample_prepared) =
     Inl Out_of_bounds_read \<and>
   validate_loop (sample_domain\<lparr>num_partitions := 3\<rparr>) 0x5000 4 False 0 3 =
     Inl Out_of_bounds_read"
proof -
  have ne: "non_empty sample_domain = partitions sample_domain"
    "non_empty (sample_domain\<lparr>num_partitions := 3\<rparr>) = partitions sample_domain"
    by (simp_all add: non_empty_def sample_domain_def)
  have parts: "resync_parts False (partitions sample_domain) 2
       (u_mode_pmpaddr_regs sample_prepared) (u_mode_pmpcfg_regs sample_prepared) =
     Inr (4, [0x20000FFF, 0xDFF, 0x5FF, 0x8FF, 0, 0, 0, 0],
          [0x9D, 0x1B, 0x1B, 0x19, 0, 0, 0, 0])"
    by (simp add: sample_domain_def sample_prepared_def
        set_pmp_entry_def PMP_ADDR_def PMP_ADDR_NAPOT_def NAPOT_RANGE_def pmp_consts)
  have n: "num_partitions sample_domain = 2" "length (partitions sample_domain) = 2"
    by (simp_all add: sample_domain_def)
  have h: "\<not> holds_range 0x5000 4 part" if "part \<in> set (partitions sample_domain)" for part
    using that by (auto simp: sample_domain_def holds_range_def inside_numeral)
  have vp: "validate_parts (partitions sample_domain) 0x2400 0x400 True = - 1"
    by (simp add: sample_domain_def holds_range_def grants_def inside_numeral pmp_consts)
  have a: "resync_loop False sample_domain 0 2 2 (u_mode_pmpaddr_regs sample_prepared)
       (u_mode_pmpcfg_regs sample_prepared) =
     Inr (4, [0x20000FFF, 0xDFF, 0x5FF, 0x8FF, 0, 0, 0, 0],
          [0x9D, 0x1B, 0x1B, 0x19, 0, 0, 0, 0])"
    and b: "validate_loop sample_domain 0x2400 0x400 True 0 2 = Inr (- 1)"
    using partition_loops_bound [of False sample_domain 2
        "u_mode_pmpaddr_regs sample_prepared" "u_mode_pmpcfg_regs sample_prepared"
        "0x2400" "0x400" True]
    by (simp_all add: ne n parts vp)
  have c: "resync_loop False (sample_domain\<lparr>num_partitions := 3\<rparr>) 0 3 2
       (u_mode_pmpaddr_regs sample_prepared) (u_mode_pmpcfg_regs sample_prepared) =
     Inl Out_of_bounds_read"
    and d: "validate_loop (sample_domain\<lparr>num_partitions := 3\<rparr>) 0x5000 4 False 0 3 =
     Inl Out_of_bounds_read"
    using partition_loops_bound [of False "sample_domain\<lparr>num_partitions := 3\<rparr>" 2
        "u_mode_pmpaddr_regs sample_prepared" "u_mode_pmpcfg_regs sample_prepared"
        "0x5000" 4 False] h
    by (simp_all add: ne n parts)
  from a b c d show ?thesis
    by (simp add: ne n)
qed

text \<open>
  C10 as stated fails. With one non-empty partition and \<open>num_partitions = 2\<close> the
  validator still returns, in bounds, because the first partition matches. With two
  non-empty partitions and \<open>num_partitions = 1\<close> the stated precondition holds and the
  synchronizer never visits the second one: slot 3 stays empty. With assertions compiled
  in, one partition of 2 bytes and \<open>num_partitions = 2\<close>, the synchronizer stops on its
  assertion before it could leave the array.
\<close>

theorem partition_loops_bound_counterexample:
  "length (non_empty (sample_domain\<lparr>partitions := take 1 (partitions sample_domain)\<rparr>))
     < num_partitions (sample_domain\<lparr>partitions := take 1 (partitions sample_domain)\<rparr>) \<and>
   validate_loop (sample_domain\<lparr>partitions := take 1 (partitions sample_domain)\<rparr>)
     0x1000 0x500 True 0 2 = Inr 0 \<and>
   num_partitions (sample_domain\<lparr>num_partitions := 1\<rparr>)
     \<le> length (non_empty (sample_domain\<lparr>num_partitions := 1\<rparr>)) \<and>
   non_empty (sample_domain\<lparr>num_partitions := 1\<rparr>) ! 1 =
     \<lparr>part_start = 0x2000, part_size = 0x800, part_pmp_attr = PMP_R\<rparr> \<and>
   resync_loop False (sample_domain\<lparr>num_partitions := 1\<rparr>) 0 1 2
       (u_mode_pmpaddr_regs sample_prepared) (u_mode_pmpcfg_regs sample_prepared) =
     Inr (3, [0x20000FFF, 0xDFF, 0x5FF, 0, 0, 0, 0, 0], [0x9D, 0x1B, 0x1B, 0, 0, 0, 0, 0]) \<and>
   length (non_empty (sample_domain\<lparr>partitions :=
       [\<lparr>part_start = 0x1000, part_size = 2, part_pmp_attr = PMP_R\<rparr>]\<rparr>))
     < num_partitions (sample_domain\<lparr>partitions :=
       [\<lparr>part_start = 0x1000, part_size = 2, part_pmp_attr = PMP_R\<rparr>]\<rparr>) \<and>
   resync_loop True (sample_domain\<lparr>partitions :=
       [\<lparr>part_start = 0x1000, part_size = 2, part_pmp_attr = PMP_R\<rparr>]\<rparr>) 0 2 2
       (u_mode_pmpaddr_regs sample_prepared) (u_mode_pmpcfg_regs sample_prepared) =
     Inl Assertion_failed"
  by (simp add: non_empty_def sample_domain_def sample_prepared_def
      validate_loop.simps resync_loop.simps IS_WITHIN_def
      set_pmp_entry_def PMP_ADDR_def PMP_ADDR_NAPOT_def NAPOT_RANGE_def pmp_consts)

text \<open>
  C4 (amended). \<open>arch_buffer_validate\<close> returns 0 if and only if the range lies inside the
  current thread's stack, or the access is a read and the range lies inside the read-only
  image, or the first partition containing the range, among the domain's first
  \<open>num_partitions\<close> non-empty partitions in array order, grants the requested bit. When at
  most one of these partitions contains the range, that is: exactly one of them contains
  the range and grants the bit. Every other case returns -1, except that the search reads
  past the array when the domain has fewer than \<open>num_partitions\<close> non-empty partitions and
  none of them contains the range. The three examples of the specification hold.
\<close>

theorem arch_buffer_validate_first_match:
  "snd (arch_buffer_validate g current domain addr sz write) =
     (if region_inside addr sz (stack_info_start current) (stack_info_size current) \<or>
         \<not> write \<and> region_inside addr sz (rom_region_start g) (rom_region_size g)
      then Inr 0
      else if length (non_empty domain) < num_partitions domain \<and>
              (\<forall>part \<in> set (non_empty domain). \<not> holds_range addr sz part)
      then Inl Out_of_bounds_read
      else Inr (if \<exists>part. find (holds_range addr sz)
                             (take (num_partitions domain) (non_empty domain)) = Some part \<and>
                           grants part write
                then 0 else - 1)) \<and>
   ((\<forall>i < length (take (num_partitions domain) (non_empty domain)).
       \<forall>j < length (take (num_partitions domain) (non_empty domain)).
         holds_range addr sz (take (num_partitions domain) (non_empty domain) ! i) \<and>
         holds_range addr sz (take (num_partitions domain) (non_empty domain) ! j) \<longrightarrow> i = j) \<longrightarrow>
    ((\<exists>part. find (holds_range addr sz)
               (take (num_partitions domain) (non_empty domain)) = Some part \<and>
             grants part write) \<longleftrightarrow>
     (\<exists>!i. i < length (take (num_partitions domain) (non_empty domain)) \<and>
           holds_range addr sz (take (num_partitions domain) (non_empty domain) ! i) \<and>
           grants (take (num_partitions domain) (non_empty domain) ! i) write))) \<and>
   snd (arch_buffer_validate sample_globals sample_thread sample_domain 0x1000 0x500 True)
     = Inr 0 \<and>
   snd (arch_buffer_validate sample_globals sample_thread sample_domain 0x2400 0x400 True)
     = Inr (- 1) \<and>
   snd (arch_buffer_validate sample_globals sample_thread sample_domain 0x1F00 0x200 False)
     = Inr (- 1)"
proof -
  have general: "snd (arch_buffer_validate g current domain addr sz write) =
     (if region_inside addr sz (stack_info_start current) (stack_info_size current) \<or>
         \<not> write \<and> region_inside addr sz (rom_region_start g) (rom_region_size g)
      then Inr 0
      else if length (non_empty domain) < num_partitions domain \<and>
              (\<forall>part \<in> set (non_empty domain). \<not> holds_range addr sz part)
      then Inl Out_of_bounds_read
      else Inr (if \<exists>part. find (holds_range addr sz)
                             (take (num_partitions domain) (non_empty domain)) = Some part \<and>
                           grants part write
                then 0 else - 1))"
    for g current domain addr sz "write"
    by (auto simp: arch_buffer_validate_def IS_WITHIN_iff Let_def
        validate_loop_parts [of domain addr sz _ 0] non_empty_def
        validate_parts_find [symmetric])
  have ne: "non_empty sample_domain = partitions sample_domain"
    by (simp add: non_empty_def sample_domain_def)
  have ex1: "snd (arch_buffer_validate sample_globals sample_thread sample_domain
                0x1000 0x500 True) = Inr 0"
    by (simp add: general ne)
      (simp add: sample_domain_def sample_thread_def sample_globals_def
        holds_range_def grants_def inside_numeral pmp_consts)
  have ex2: "snd (arch_buffer_validate sample_globals sample_thread sample_domain
                0x2400 0x400 True) = Inr (- 1)"
    by (simp add: general ne)
      (simp add: sample_domain_def sample_thread_def sample_globals_def
        holds_range_def grants_def inside_numeral pmp_consts)
  have ex3: "snd (arch_buffer_validate sample_globals sample_thread sample_domain
                0x1F00 0x200 False) = Inr (- 1)"
    by (simp add: general ne)
      (simp add: sample_domain_def sample_thread_def sample_globals_def
        holds_range_def grants_def inside_numeral pmp_consts)
  from general first_is_only [of "take (num_partitions domain) (non_empty domain)"
      "holds_range addr sz" "\<lambda>part. grants part write"] ex1 ex2 ex3
  show ?thesis
    by blast
qed

theorem arch_buffer_validate_first_match_witness:
  "\<not> region_inside 0x2400 0x400 (stack_info_start sample_thread) (stack_info_size sample_thread) \<and>
   \<not> length (non_empty sample_domain) < num_partitions sample_domain \<and>
   find (holds_range 0x2400 0x400) (take (num_partitions sample_domain) (non_empty sample_domain))
     = Some \<lparr>part_start = 0x2000, part_size = 0x800, part_pmp_attr = PMP_R\<rparr> \<and>
   \<not> grants \<lparr>part_start = 0x2000, part_size = 0x800, part_pmp_attr = PMP_R\<rparr> True \<and>
   snd (arch_buffer_validate sample_globals sample_thread sample_domain 0x2400 0x400 True)
     = Inr (- 1) \<and>
   \<not> holds_range 0x2400 0x400 (non_empty sample_domain ! 0) \<and>
   \<not> (\<exists>!i. i < length (take (num_partitions sample_domain) (non_empty sample_domain)) \<and>
           holds_range 0x2400 0x400
             (take (num_partitions sample_domain) (non_empty sample_domain) ! i) \<and>
           grants (take (num_partitions sample_domain) (non_empty sample_domain) ! i) True)"
proof -
  have ne: "take (num_partitions sample_domain) (non_empty sample_domain) =
      [\<lparr>part_start = 0x1000, part_size = 0x1000, part_pmp_attr = PMP_R OR PMP_W\<rparr>,
       \<lparr>part_start = 0x2000, part_size = 0x800, part_pmp_attr = PMP_R\<rparr>]"
    "non_empty sample_domain =
      [\<lparr>part_start = 0x1000, part_size = 0x1000, part_pmp_attr = PMP_R OR PMP_W\<rparr>,
       \<lparr>part_start = 0x2000, part_size = 0x800, part_pmp_attr = PMP_R\<rparr>]"
    "num_partitions sample_domain = 2"
    by (simp_all add: non_empty_def sample_domain_def)
  have h: "\<not> holds_range 0x2400 0x400
              \<lparr>part_start = 0x1000, part_size = 0x1000, part_pmp_attr = PMP_R OR PMP_W\<rparr>"
    "holds_range 0x2400 0x400 \<lparr>part_start = 0x2000, part_size = 0x800, part_pmp_attr = PMP_R\<rparr>"
    "\<not> grants \<lparr>part_start = 0x2000, part_size = 0x800, part_pmp_attr = PMP_R\<rparr> True"
    "\<not> region_inside 0x2400 0x400 (stack_info_start sample_thread)
         (stack_info_size sample_thread)"
    by (simp_all add: holds_range_def grants_def inside_numeral sample_thread_def pmp_consts)
  have only: "\<forall>i < length (take (num_partitions sample_domain) (non_empty sample_domain)).
       \<forall>j < length (take (num_partitions sample_domain) (non_empty sample_domain)).
         holds_range 0x2400 0x400
           (take (num_partitions sample_domain) (non_empty sample_domain) ! i) \<and>
         holds_range 0x2400 0x400
           (take (num_partitions sample_domain) (non_empty sample_domain) ! j) \<longrightarrow> i = j"
    using h by (auto simp: ne less_Suc_eq numeral_2_eq_2)
  from arch_buffer_validate_first_match
    [of sample_globals sample_thread sample_domain "0x2400" "0x400" True] only h
  show ?thesis
    by (simp add: ne)
qed

text \<open>
  C4 as stated fails where two partitions contain the range: the first one decides. In the
  specification's own domain the empty range at \<open>0x2000\<close> lies inside both partitions,
  both grant reading, and the read is allowed. The same happens for the non-empty range
  \<open>[0x1000, 0x1500)\<close> when a read-only partition \<open>[0x1000, 0x3000)\<close> overlaps a read+write
  partition \<open>[0x1000, 0x2000)\<close>. Only \<open>num_partitions\<close> bounds the search: with
  \<open>num_partitions = 3\<close> and two partitions, a range that none contains takes the search
  past the array, and with \<open>num_partitions = 1\<close> the second partition, which contains
  \<open>[0x2400, 0x2800)\<close> and grants reading, is never looked at and the read is denied.
\<close>

theorem arch_buffer_validate_exactly_one_counterexample:
  "non_empty sample_domain = partitions sample_domain \<and>
   num_partitions sample_domain = length (partitions sample_domain) \<and>
   holds_range 0x2000 0 (partitions sample_domain ! 0) \<and>
   grants (partitions sample_domain ! 0) False \<and>
   holds_range 0x2000 0 (partitions sample_domain ! 1) \<and>
   grants (partitions sample_domain ! 1) False \<and>
   \<not> region_inside 0x2000 0 (stack_info_start sample_thread) (stack_info_size sample_thread) \<and>
   \<not> region_inside 0x2000 0 (rom_region_start sample_globals) (rom_region_size sample_globals) \<and>
   snd (arch_buffer_validate sample_globals sample_thread sample_domain 0x2000 0 False) = Inr 0 \<and>
   holds_range 0x1000 0x500 \<lparr>part_start = 0x1000, part_size = 0x2000, part_pmp_attr = PMP_R\<rparr> \<and>
   grants \<lparr>part_start = 0x1000, part_size = 0x2000, part_pmp_attr = PMP_R\<rparr> False \<and>
   holds_range 0x1000 0x500
     \<lparr>part_start = 0x1000, part_size = 0x1000, part_pmp_attr = PMP_R OR PMP_W\<rparr> \<and>
   grants \<lparr>part_start = 0x1000, part_size = 0x1000, part_pmp_attr = PMP_R OR PMP_W\<rparr> False \<and>
   \<not> region_inside 0x1000 0x500 (stack_info_start sample_thread)
       (stack_info_size sample_thread) \<and>
   \<not> region_inside 0x1000 0x500 (rom_region_start sample_globals)
       (rom_region_size sample_globals) \<and>
   snd (arch_buffer_validate sample_globals sample_thread
          (sample_domain\<lparr>partitions :=
             [\<lparr>part_start = 0x1000, part_size = 0x2000, part_pmp_attr = PMP_R\<rparr>,
              \<lparr>part_start = 0x1000, part_size = 0x1000, part_pmp_attr = PMP_R OR PMP_W\<rparr>]\<rparr>)
          0x1000 0x500 False) = Inr 0 \<and>
   snd (arch_buffer_validate sample_globals sample_thread
          (sample_domain\<lparr>num_partitions := 3\<rparr>) 0x5000 4 False) = Inl Out_of_bounds_read \<and>
   holds_range 0x2400 0x400 (non_empty (sample_domain\<lparr>num_partitions := 1\<rparr>) ! 1) \<and>
   grants (non_empty (sample_domain\<lparr>num_partitions := 1\<rparr>) ! 1) False \<and>
   \<not> region_inside 0x2400 0x400 (stack_info_start sample_thread)
       (stack_info_size sample_thread) \<and>
   \<not> region_inside 0x2400 0x400 (rom_region_start sample_globals)
       (rom_region_size sample_globals) \<and>
   snd (arch_buffer_validate sample_globals sample_thread
          (sample_domain\<lparr>num_partitions := 1\<rparr>) 0x2400 0x400 False) = Inr (- 1)"
  by (simp add: non_empty_def sample_domain_def sample_thread_def sample_globals_def
      holds_range_def grants_def region_inside_def arch_buffer_validate_def
      validate_loop.simps IS_WITHIN_def pmp_consts)

end
